theory Spec2Isabelle
  imports Complex_Main "HOL-Library.AList"
begin

section \<open>Python numbers\<close>

text \<open>
  Python's \<^verbatim>\<open>int\<close> is unbounded and is modelled by \<^typ>\<open>int\<close>. A Python \<^verbatim>\<open>float\<close> is an
  IEEE 754 binary64 number; a finite one is modelled by the rational it denotes, and every
  arithmetic operation returns the exact result rounded to the nearest binary64 number, ties
  to the even significand (\<open>binary64\<close>). Infinities and NaN have no counterpart: the model
  follows CPython as long as the operands are finite and no result reaches \<open>2 ^ 1024\<close> in
  magnitude.
\<close>

fun ilog2 :: "nat \<Rightarrow> nat" where
  "ilog2 n = (if n < 2 then 0 else Suc (ilog2 (n div 2)))"

declare ilog2.simps [simp del]

definition pow2 :: "int \<Rightarrow> rat" where
  "pow2 k = (if 0 \<le> k then 2 ^ nat k else 1 / 2 ^ nat (- k))"

text \<open>The binary exponent of a non-zero \<open>x\<close>: the \<open>e\<close> with \<open>2 ^ e \<le> \<bar>x\<bar> < 2 ^ (e + 1)\<close>.\<close>

definition expo :: "rat \<Rightarrow> int" where
  "expo x = (let a = \<bar>x\<bar> in
     if 1 \<le> a then int (ilog2 (nat \<lfloor>a\<rfloor>))
     else (let j = int (ilog2 (nat \<lfloor>1 / a\<rfloor>)) in if a * pow2 j = 1 then - j else - j - 1))"

definition ties_even :: "rat \<Rightarrow> int" where
  "ties_even x = (let f = \<lfloor>x\<rfloor>; r = x - of_int f in
     if r < 1 / 2 then f else if 1 / 2 < r then f + 1 else if even f then f else f + 1)"

text \<open>
  Rounding to binary64: 53 significant bits, the spacing of the subnormal range below
  \<open>2 ^ (- 1022)\<close>.
\<close>

definition binary64 :: "rat \<Rightarrow> rat" where
  "binary64 x = (if x = 0 then 0 else
     (let q = pow2 (max (expo x) (- 1022) - 52) in of_int (ties_even (x / q)) * q))"

definition fmul :: "rat \<Rightarrow> rat \<Rightarrow> rat" where
  "fmul a b = binary64 (a * b)"

definition fadd :: "rat \<Rightarrow> rat \<Rightarrow> rat" where
  "fadd a b = binary64 (a + b)"

definition fsub :: "rat \<Rightarrow> rat \<Rightarrow> rat" where
  "fsub a b = binary64 (a - b)"

text \<open>True division; the callers below divide by the non-zero constant \<^verbatim>\<open>1e6\<close> only.\<close>

definition fdiv :: "rat \<Rightarrow> rat \<Rightarrow> rat" where
  "fdiv a b = binary64 (a / b)"

text \<open>The conversion of an \<^verbatim>\<open>int\<close> operand in mixed arithmetic.\<close>

definition float_of_int :: "int \<Rightarrow> rat" where
  "float_of_int i = binary64 (of_int i)"

text \<open>\<^verbatim>\<open>int(x)\<close> truncates towards zero.\<close>

definition py_int :: "rat \<Rightarrow> int" where
  "py_int x = (if 0 \<le> x then \<lfloor>x\<rfloor> else \<lceil>x\<rceil>)"

text \<open>The float literal \<^verbatim>\<open>0.95\<close>: the binary64 number nearest to \<open>95 / 100\<close>.\<close>

definition p95 :: rat where
  "p95 = 8556839292003942 / 2 ^ 53"

text \<open>The exceptions the modelled code can raise.\<close>

datatype exn = ZeroDivisionError | IndexError

text \<open>
  Subscription \<^verbatim>\<open>xs[i]\<close> of a list: positions \<open>0 .. len - 1\<close> and, from the right end,
  \<open>- len .. - 1\<close>; any other index raises.
\<close>

definition py_index :: "'a list \<Rightarrow> int \<Rightarrow> exn + 'a" where
  "py_index xs i =
     (if 0 \<le> i \<and> i < int (length xs) then Inr (xs ! nat i)
      else if - int (length xs) \<le> i \<and> i < 0 then Inr (xs ! nat (int (length xs) + i))
      else Inl IndexError)"

section \<open>stats.py\<close>

text \<open>
  \<^verbatim>\<open>_percentile(values, p)\<close>. The result is \<open>Inr None\<close> for Python's \<^verbatim>\<open>None\<close>, \<open>Inr (Some v)\<close>
  for a float and \<open>Inl e\<close> for a raised exception. An \<^verbatim>\<open>int\<close> element of \<^verbatim>\<open>values\<close> stands
  for the float it converts to.
\<close>

definition percentile :: "rat list \<Rightarrow> rat \<Rightarrow> exn + rat option" where
  "percentile values p =
     (if values = [] then Inr None
      else if length values = 1 then Inr (Some (hd values))
      else
        (let sorted_vals = sort values;
             rank = fmul (float_of_int (int (length sorted_vals) - 1)) p;
             low = \<lfloor>rank\<rfloor>;
             high = \<lceil>rank\<rceil>
         in if low = high then
              (case py_index sorted_vals (py_int rank) of
                 Inl e \<Rightarrow> Inl e
               | Inr v \<Rightarrow> Inr (Some v))
            else
              (let frac = fsub rank (float_of_int low) in
                 (case py_index sorted_vals low of
                    Inl e \<Rightarrow> Inl e
                  | Inr a \<Rightarrow>
                      (case py_index sorted_vals high of
                         Inl e \<Rightarrow> Inl e
                       | Inr b \<Rightarrow> Inr (Some (fadd (fmul a (fsub 1 frac)) (fmul b frac))))))))"

section \<open>logger.py\<close>

text \<open>
  \<^verbatim>\<open>EventRow\<close>; the fields carry the prefix \<open>ev_\<close> because several of their names are
  fields of other classes too.
\<close>

record EventRow =
  ev_timestamp_ns :: int
  ev_mode :: string
  ev_decoder :: string
  ev_event_type :: string
  ev_trial_id :: "int option"
  ev_frame_index :: "int option"
  ev_conversion_ms :: "rat option"
  ev_decode_duration_ms :: "rat option"
  ev_payload_string :: "string option"
  ev_payload_changed :: "bool option"

text \<open>An \<^verbatim>\<open>EventRow\<close> built from the four required fields, the others at their default.\<close>

definition event_row :: "int \<Rightarrow> string \<Rightarrow> string \<Rightarrow> string \<Rightarrow> EventRow" where
  "event_row ts m dec ty =
     \<lparr>ev_timestamp_ns = ts, ev_mode = m, ev_decoder = dec, ev_event_type = ty,
      ev_trial_id = None, ev_frame_index = None, ev_conversion_ms = None,
      ev_decode_duration_ms = None, ev_payload_string = None, ev_payload_changed = None\<rparr>"

text \<open>\<^verbatim>\<open>StructuredLogger.log\<close>: the logger is its list of events, and logging appends.\<close>

definition logger_log :: "EventRow list \<Rightarrow> EventRow \<Rightarrow> EventRow list" where
  "logger_log events row = events @ [row]"

section \<open>config.py\<close>

record LiveBenchmarkConfig =
  trials :: int
  timeout_s :: rat
  warmup_s :: rat
  resolution_preset :: string
  throttle_n_frames :: int
  parallel_decode :: bool
  confirmations_required :: int
  confirmation_window_ms :: rat

definition default_config :: LiveBenchmarkConfig where
  "default_config =
     \<lparr>trials = 10, timeout_s = 3, warmup_s = 2, resolution_preset = ''1280x720'',
      throttle_n_frames = 1, parallel_decode = True, confirmations_required = 2,
      confirmation_window_ms = 500\<rparr>"

section \<open>live\_benchmark.py\<close>

definition DECODERS :: "string list" where
  "DECODERS = [''AVFOUNDATION'', ''VISION'', ''ZXING'']"

record TrialDecoderState =
  first_detect_ns :: "int option"
  confirm_detect_ns :: "int option"
  history :: "(string \<times> int) list"

text \<open>\<^verbatim>\<open>TrialDecoderState()\<close>, the value a missing key of \<^verbatim>\<open>per_decoder\<close> stands for.\<close>

definition new_state :: TrialDecoderState where
  "new_state = \<lparr>first_detect_ns = None, confirm_detect_ns = None, history = []\<rparr>"

record TrialRecord =
  trial_id :: int
  t0_ns :: int
  timeout_ns :: int
  per_decoder :: "string \<rightharpoonup> TrialDecoderState"

text \<open>
  The controller. \<^verbatim>\<open>_trials\<close> is a dictionary, kept as an association list in insertion
  order (\<open>trials_map\<close>: the configuration has a field \<open>trials\<close> already);
  \<^verbatim>\<open>_active_trial_id\<close> is \<open>active_trial_id\<close>. The lock serialises the calls, so each
  call is one state transition.
\<close>

record LiveBenchmarkController =
  logger :: "EventRow list"
  config :: LiveBenchmarkConfig
  trials_map :: "(int \<times> TrialRecord) list"
  active_trial_id :: "int option"

definition new_controller :: "EventRow list \<Rightarrow> LiveBenchmarkConfig \<Rightarrow> LiveBenchmarkController" where
  "new_controller lg cfg =
     \<lparr>logger = lg, config = cfg, trials_map = [], active_trial_id = None\<rparr>"

definition start_trial :: "LiveBenchmarkController \<Rightarrow> int \<Rightarrow> int \<Rightarrow> LiveBenchmarkController" where
  "start_trial c tid t0 =
     (let timeout = t0 + py_int (fmul (timeout_s (config c)) 1000000000)
      in c\<lparr>trials_map :=
             AList.update tid
               \<lparr>trial_id = tid, t0_ns = t0, timeout_ns = timeout, per_decoder = Map.empty\<rparr>
               (trials_map c),
           active_trial_id := Some tid,
           logger := logger_log (logger c)
             ((event_row t0 ''live'' ''SYSTEM'' ''TRIAL_START'')\<lparr>ev_trial_id := Some tid\<rparr>)\<rparr>)"

text \<open>\<^verbatim>\<open>end_trial\<close>; \<open>now\<close> is what \<^verbatim>\<open>time.perf_counter_ns()\<close> returns.\<close>

definition end_trial :: "LiveBenchmarkController \<Rightarrow> int \<Rightarrow> int \<Rightarrow> LiveBenchmarkController" where
  "end_trial c tid now =
     c\<lparr>logger := logger_log (logger c)
          ((event_row now ''live'' ''SYSTEM'' ''TRIAL_END'')\<lparr>ev_trial_id := Some tid\<rparr>)\<rparr>"

definition current_trial_id :: "LiveBenchmarkController \<Rightarrow> int option" where
  "current_trial_id c = active_trial_id c"

text \<open>The \<^verbatim>\<open>while\<close> loop of \<^verbatim>\<open>on_detection\<close>: entries leave at the left end while the leftmost is too old.\<close>

fun evict :: "int \<Rightarrow> int \<Rightarrow> (string \<times> int) list \<Rightarrow> (string \<times> int) list" where
  "evict ts window [] = []"
| "evict ts window (e # h) = (if ts - snd e > window then evict ts window h else e # h)"

definition window_ns :: "LiveBenchmarkConfig \<Rightarrow> int" where
  "window_ns cfg = py_int (fmul (confirmation_window_ms cfg) 1000000)"

text \<open>The history after the append and the eviction, and the count of the matching payloads in it.\<close>

definition slide :: "LiveBenchmarkConfig \<Rightarrow> int \<Rightarrow> string \<Rightarrow> (string \<times> int) list \<Rightarrow> (string \<times> int) list" where
  "slide cfg ts payload h = evict ts (window_ns cfg) (h @ [(payload, ts)])"

definition matching :: "string \<Rightarrow> (string \<times> int) list \<Rightarrow> int" where
  "matching payload h = int (length (filter (\<lambda>e. fst e = payload) h))"

text \<open>
  What \<^verbatim>\<open>on_detection\<close> does to the state of the decoder once the detection is attributed
  to the active trial.
\<close>

definition update_state ::
  "LiveBenchmarkConfig \<Rightarrow> string \<Rightarrow> int \<Rightarrow> string \<Rightarrow> TrialDecoderState \<Rightarrow> TrialDecoderState" where
  "update_state cfg dec ts payload state =
     (let state1 = (if first_detect_ns state = None then state\<lparr>first_detect_ns := Some ts\<rparr> else state);
          h = slide cfg ts payload (history state1);
          count = matching payload h;
          state2 = state1\<lparr>history := h\<rparr>
      in if confirm_detect_ns state2 = None then
           (if dec = ''AVFOUNDATION'' \<and> confirmations_required cfg > 1
               \<and> count < confirmations_required cfg
            then state2\<lparr>confirm_detect_ns := first_detect_ns state2\<rparr>
            else if count \<ge> confirmations_required cfg
            then state2\<lparr>confirm_detect_ns := Some ts\<rparr>
            else state2)
         else state2)"

definition on_detection ::
  "LiveBenchmarkController \<Rightarrow> string \<Rightarrow> int \<Rightarrow> string \<Rightarrow> LiveBenchmarkController" where
  "on_detection c dec ts payload =
     (case active_trial_id c of
        None \<Rightarrow> c
      | Some tid \<Rightarrow>
          (case map_of (trials_map c) tid of
             None \<Rightarrow> c
           | Some trial \<Rightarrow>
               if ts < t0_ns trial \<or> ts > timeout_ns trial then c
               else
                 (let state = (case per_decoder trial dec of None \<Rightarrow> new_state | Some s \<Rightarrow> s);
                      state' = update_state (config c) dec ts payload state
                  in c\<lparr>trials_map :=
                         AList.update tid
                           (trial\<lparr>per_decoder := (per_decoder trial)(dec \<mapsto> state')\<rparr>)
                           (trials_map c),
                       logger := logger_log (logger c)
                         ((event_row ts ''live'' dec ''PAYLOAD_DETECTED'')
                            \<lparr>ev_trial_id := Some tid, ev_payload_string := Some payload\<rparr>)\<rparr>)))"

text \<open>A sequence of \<^verbatim>\<open>on_detection\<close> calls, each a triple of decoder, timestamp and payload.\<close>

fun detections ::
  "LiveBenchmarkController \<Rightarrow> (string \<times> int \<times> string) list \<Rightarrow> LiveBenchmarkController" where
  "detections c [] = c"
| "detections c ((dec, ts, payload) # evs) = detections (on_detection c dec ts payload) evs"

text \<open>
  The state of a decoder in a trial, as \<^verbatim>\<open>per_decoder.get(decoder, TrialDecoderState())\<close>
  reads it.
\<close>

definition decoder_state :: "LiveBenchmarkController \<Rightarrow> int \<Rightarrow> string \<Rightarrow> TrialDecoderState" where
  "decoder_state c tid dec =
     (case map_of (trials_map c) tid of
        None \<Rightarrow> new_state
      | Some trial \<Rightarrow> (case per_decoder trial dec of None \<Rightarrow> new_state | Some s \<Rightarrow> s))"

text \<open>Whether \<^verbatim>\<open>on_detection\<close> attributes a detection at \<open>ts\<close> to the active trial.\<close>

definition accepts :: "LiveBenchmarkController \<Rightarrow> int \<Rightarrow> bool" where
  "accepts c ts =
     (case active_trial_id c of
        None \<Rightarrow> False
      | Some tid \<Rightarrow>
          (case map_of (trials_map c) tid of
             None \<Rightarrow> False
           | Some trial \<Rightarrow> t0_ns trial \<le> ts \<and> ts \<le> timeout_ns trial))"

text \<open>
  One row of \<^verbatim>\<open>trials_summary_rows\<close>. A timestamp is tested by its truth value there, so
  the timestamp \<open>0\<close> counts as absent, as \<^verbatim>\<open>None\<close> does.
\<close>

record SummaryRow =
  row_trial_id :: int
  row_decoder :: string
  success :: bool
  first_detect_latency_ms :: "rat option"
  confirm_detect_latency_ms :: "rat option"

definition truthy :: "int option \<Rightarrow> bool" where
  "truthy v = (case v of None \<Rightarrow> False | Some n \<Rightarrow> n \<noteq> 0)"

definition latency_ms :: "int option \<Rightarrow> int \<Rightarrow> rat option" where
  "latency_ms v t0 =
     (case v of
        None \<Rightarrow> None
      | Some n \<Rightarrow> if n \<noteq> 0 then Some (fdiv (float_of_int (n - t0)) 1000000) else None)"

definition summary_row :: "int \<Rightarrow> TrialRecord \<Rightarrow> string \<Rightarrow> SummaryRow" where
  "summary_row tid trial dec =
     (let state = (case per_decoder trial dec of None \<Rightarrow> new_state | Some s \<Rightarrow> s);
          first_ms = latency_ms (first_detect_ns state) (t0_ns trial);
          confirm_ms = latency_ms (confirm_detect_ns state) (t0_ns trial)
      in \<lparr>row_trial_id = tid, row_decoder = dec, success = truthy (first_detect_ns state),
          first_detect_latency_ms = first_ms, confirm_detect_latency_ms = confirm_ms\<rparr>)"

text \<open>
  \<^verbatim>\<open>sorted(self._trials.items())\<close> orders the pairs by trial id: the keys of a dictionary
  are distinct, so the comparison never reaches the records.
\<close>

definition trials_summary_rows :: "LiveBenchmarkController \<Rightarrow> SummaryRow list" where
  "trials_summary_rows c =
     concat (map (\<lambda>(tid, trial). map (summary_row tid trial) DECODERS)
                 (sort_key fst (trials_map c)))"

section \<open>camera.py\<close>

record CameraMetrics =
  frames_received :: int
  frames_processed :: int
  dropped_frames :: int

text \<open>
  A unit of work handed to \<^verbatim>\<open>ThreadPoolExecutor.submit\<close>: the decoders it runs, in order,
  and the index of the frame. In parallel mode a frame gives one unit per decoder, in
  serial mode one unit that runs both.
\<close>

datatype task = RunDecode "string list" int

definition decode_tasks :: "bool \<Rightarrow> int \<Rightarrow> task list" where
  "decode_tasks parallel frame_idx =
     (if parallel then [RunDecode [''VISION''] frame_idx, RunDecode [''ZXING''] frame_idx]
      else [RunDecode [''VISION'', ''ZXING''] frame_idx])"

text \<open>
  The session, its fields under the prefix \<open>cam_\<close>. \<open>cam_executor\<close> is the work submitted
  to the pool and not started yet; \<open>cam_decode_queue\<close> is \<^verbatim>\<open>_decode_queue\<close>, created with
  \<^verbatim>\<open>maxsize=2\<close> and touched by no method. The capture objects and the decoders are outside
  the model.
\<close>

record SharedCameraSession =
  cam_logger :: "EventRow list"
  cam_throttle_n_frames :: int
  cam_parallel_decode :: bool
  cam_metrics :: CameraMetrics
  cam_dropped_frames :: int
  cam_frame_index :: int
  cam_executor :: "task list"
  cam_decode_queue :: "int list"

definition decode_queue_maxsize :: nat where
  "decode_queue_maxsize = 2"

definition new_session :: "EventRow list \<Rightarrow> int \<Rightarrow> bool \<Rightarrow> SharedCameraSession" where
  "new_session lg throttle parallel =
     \<lparr>cam_logger = lg, cam_throttle_n_frames = max 1 throttle, cam_parallel_decode = parallel,
      cam_metrics = \<lparr>frames_received = 0, frames_processed = 0, dropped_frames = 0\<rparr>,
      cam_dropped_frames = 0, cam_frame_index = 0, cam_executor = [], cam_decode_queue = []\<rparr>"

definition frame_received :: "int \<Rightarrow> int \<Rightarrow> EventRow" where
  "frame_received ts frame_idx =
     (event_row ts ''live'' ''PIPELINE'' ''FRAME_RECEIVED'')\<lparr>ev_frame_index := Some frame_idx\<rparr>"

text \<open>
  \<^verbatim>\<open>on_video_sample\<close>; \<open>ts\<close> is what \<^verbatim>\<open>time.perf_counter_ns()\<close> returns. The remainder by a
  throttle factor \<open>0\<close> raises after the counters and the log have changed, so the error
  carries the session it leaves behind.
\<close>

definition on_video_sample ::
  "SharedCameraSession \<Rightarrow> int \<Rightarrow> (exn \<times> SharedCameraSession) + SharedCameraSession" where
  "on_video_sample s ts =
     (let s1 = s\<lparr>cam_metrics := (cam_metrics s)\<lparr>frames_received := frames_received (cam_metrics s) + 1\<rparr>,
                 cam_frame_index := cam_frame_index s + 1\<rparr>;
          frame_idx = cam_frame_index s1;
          s2 = s1\<lparr>cam_logger := logger_log (cam_logger s1) (frame_received ts frame_idx)\<rparr>
      in if cam_throttle_n_frames s2 = 0 then Inl (ZeroDivisionError, s2)
         else if frame_idx mod cam_throttle_n_frames s2 \<noteq> 0 then Inr s2
         else Inr (s2\<lparr>cam_executor :=
                        cam_executor s2 @ decode_tasks (cam_parallel_decode s2) frame_idx\<rparr>))"

text \<open>The frames of a capture, delivered one after the other.\<close>

fun deliver ::
  "SharedCameraSession \<Rightarrow> int list \<Rightarrow> (exn \<times> SharedCameraSession) + SharedCameraSession" where
  "deliver s [] = Inr s"
| "deliver s (ts # tss) =
     (case on_video_sample s ts of Inl e \<Rightarrow> Inl e | Inr s' \<Rightarrow> deliver s' tss)"

section \<open>Sequences of detections\<close>

text \<open>
  The detections of a sequence that the controller attributes to its active trial for one
  decoder, as pairs of timestamp and payload, in the order of the calls.
\<close>

definition attributed ::
  "LiveBenchmarkController \<Rightarrow> string \<Rightarrow> (string \<times> int \<times> string) list \<Rightarrow> (int \<times> string) list" where
  "attributed c dec evs = map snd (filter (\<lambda>e. fst e = dec \<and> accepts c (fst (snd e))) evs)"

text \<open>The state of one decoder after a sequence of attributed detections.\<close>

fun run_state ::
  "LiveBenchmarkConfig \<Rightarrow> string \<Rightarrow> TrialDecoderState \<Rightarrow> (int \<times> string) list \<Rightarrow> TrialDecoderState" where
  "run_state cfg dec st [] = st"
| "run_state cfg dec st (e # es) = run_state cfg dec (update_state cfg dec (fst e) (snd e) st) es"

text \<open>
  A confirmation is recorded only together with a first detection, and does not precede
  it.
\<close>

definition ordered :: "TrialDecoderState \<Rightarrow> bool" where
  "ordered st =
     (case confirm_detect_ns st of
        None \<Rightarrow> True
      | Some k \<Rightarrow> (case first_detect_ns st of None \<Rightarrow> False | Some f \<Rightarrow> f \<le> k))"

text \<open>
  No detection of the sequence is stamped earlier than the first detection of the decoder:
  the one already recorded, or else the head of the sequence.
\<close>

definition no_earlier :: "int option \<Rightarrow> (int \<times> string) list \<Rightarrow> bool" where
  "no_earlier first es =
     (case first of
        Some f \<Rightarrow> list_all (\<lambda>e. f \<le> fst e) es
      | None \<Rightarrow> (case es of [] \<Rightarrow> True | e # r \<Rightarrow> list_all (\<lambda>e'. fst e \<le> fst e') r))"

text \<open>
  The confirmation threshold in the words of the specification. \<open>seen\<close> holds every
  detection attributed to the decoder so far, as pairs of payload and timestamp. The count
  for a detection at \<open>ts\<close> with payload \<open>payload\<close> is the number of the entries of \<open>seen\<close>,
  the detection itself among them, that carry this payload and are not older than the
  confirmation window relative to \<open>ts\<close>.
\<close>

definition spec_count :: "LiveBenchmarkConfig \<Rightarrow> (string \<times> int) list \<Rightarrow> int \<Rightarrow> string \<Rightarrow> int" where
  "spec_count cfg seen ts payload =
     int (length (filter (\<lambda>x. fst x = payload \<and> ts - snd x \<le> window_ns cfg) seen))"

text \<open>
  The timestamp of the first detection of a sequence at which that count reaches
  \<^verbatim>\<open>confirmations_required\<close>, if there is one.
\<close>

fun spec_threshold_ts ::
  "LiveBenchmarkConfig \<Rightarrow> (string \<times> int) list \<Rightarrow> (int \<times> string) list \<Rightarrow> int option" where
  "spec_threshold_ts cfg seen [] = None"
| "spec_threshold_ts cfg seen (e # es) =
     (if confirmations_required cfg \<le> spec_count cfg (seen @ [(snd e, fst e)]) (fst e) (snd e)
      then Some (fst e)
      else spec_threshold_ts cfg (seen @ [(snd e, fst e)]) es)"

text \<open>
  Linear interpolation at the rank \<open>r\<close> between the two order statistics of the sorted
  list \<open>s\<close> that bound it, \<open>s[\<lfloor>r\<rfloor>]\<close> and \<open>s[\<lceil>r\<rceil>]\<close>, in float arithmetic: the weights are
  \<open>1 - frac\<close> and \<open>frac\<close> for the fractional part \<open>frac\<close> of the rank.
\<close>

definition interpolate :: "rat list \<Rightarrow> rat \<Rightarrow> rat" where
  "interpolate s r =
     (if \<lfloor>r\<rfloor> = \<lceil>r\<rceil> then s ! nat \<lfloor>r\<rfloor>
      else fadd (fmul (s ! nat \<lfloor>r\<rfloor>) (fsub 1 (fsub r (of_int \<lfloor>r\<rfloor>))))
                (fmul (s ! nat \<lceil>r\<rceil>) (fsub r (of_int \<lfloor>r\<rfloor>))))"

section \<open>Example states\<close>

text \<open>A controller with the default configuration in which trial \<open>1\<close> has started at \<open>t0 = 1000\<close>.\<close>

definition started :: LiveBenchmarkController where
  "started = start_trial (new_controller [] default_config) 1 1000"

text \<open>Two detections of one decoder, the second stamped before the first.\<close>

definition late_arrival :: "(string \<times> int \<times> string) list" where
  "late_arrival = [(''VISION'', 2000, ''QR''), (''VISION'', 1500, ''QR'')]"

text \<open>Detections in the order of their timestamps.\<close>

definition in_order :: "(string \<times> int \<times> string) list" where
  "in_order = [(''VISION'', 2000, ''QR''), (''AVFOUNDATION'', 2500, ''QR''), (''VISION'', 3000, ''QR'')]"

text \<open>The region detector reporting one payload three times within the window.\<close>

definition repeated :: "(string \<times> int \<times> string) list" where
  "repeated = [(''AVFOUNDATION'', 2000, ''QR''), (''AVFOUNDATION'', 2100, ''QR''),
               (''AVFOUNDATION'', 2200, ''QR'')]"

text \<open>The region detector reporting two different payloads.\<close>

definition two_payloads :: "(string \<times> int \<times> string) list" where
  "two_payloads = [(''AVFOUNDATION'', 2000, ''QR''), (''AVFOUNDATION'', 2100, ''QS'')]"

text \<open>
  Three detections of one decoder, the second stamped well before the first and more than
  the window before the third.
\<close>

definition stale_arrival :: "(string \<times> int \<times> string) list" where
  "stale_arrival = [(''VISION'', 600000000, ''QR''), (''VISION'', 100000000, ''QS''),
                    (''VISION'', 700000000, ''QR'')]"

text \<open>
  A session in parallel mode with throttle factor \<open>1\<close> after two frames, none of whose four
  decode tasks has started.
\<close>

definition saturated :: SharedCameraSession where
  "saturated =
     \<lparr>cam_logger = [frame_received 5 1, frame_received 6 2], cam_throttle_n_frames = 1,
      cam_parallel_decode = True,
      cam_metrics = \<lparr>frames_received = 2, frames_processed = 0, dropped_frames = 0\<rparr>,
      cam_dropped_frames = 0, cam_frame_index = 2,
      cam_executor = [RunDecode [''VISION''] 1, RunDecode [''ZXING''] 1,
                      RunDecode [''VISION''] 2, RunDecode [''ZXING''] 2],
      cam_decode_queue = []\<rparr>"

text \<open>A trial that starts at \<open>t0 = 0\<close> and whose first detection is stamped \<open>0\<close> as well.\<close>

definition at_zero :: LiveBenchmarkController where
  "at_zero = on_detection (start_trial (new_controller [] default_config) 1 0) ''VISION'' 0 ''QR''"

text \<open>
  Three detections of one decoder: a payload stamped well before the detection that
  precedes it, and the same payload again more than the window later.
\<close>

definition stale_repeat :: "(string \<times> int \<times> string) list" where
  "stale_repeat = [(''VISION'', 600000000, ''QS''), (''VISION'', 100000000, ''QR''),
                   (''VISION'', 700000000, ''QR'')]"

text \<open>One payload detected twice by one decoder, the second time after more than the window.\<close>

definition spaced :: "(string \<times> int \<times> string) list" where
  "spaced = [(''VISION'', 2000, ''QR''), (''VISION'', 600000000, ''QR'')]"

section \<open>Evaluating floats\<close>

lemma ilog2_numeral:
  "ilog2 (numeral (Num.Bit0 n)) = Suc (ilog2 (numeral n))"
  "ilog2 (numeral (Num.Bit1 n)) = Suc (ilog2 (numeral n))"
  "ilog2 1 = 0" "ilog2 0 = 0" "ilog2 (Suc 0) = 0"
proof -
  show "ilog2 (numeral (Num.Bit0 n)) = Suc (ilog2 (numeral n))"
    by (subst ilog2.simps) simp
  show "ilog2 (numeral (Num.Bit1 n)) = Suc (ilog2 (numeral n))"
    by (subst ilog2.simps) simp
  show "ilog2 1 = 0" by (subst ilog2.simps) simp
  show "ilog2 0 = 0" by (subst ilog2.simps) simp
  show "ilog2 (Suc 0) = 0" by (subst ilog2.simps) simp
qed

lemma floor_numeral_div: "\<lfloor>numeral a / numeral b :: rat\<rfloor> = numeral a div numeral b"
  using floor_divide_of_int_eq [of "numeral a" "numeral b", where ?'a = rat] by simp

lemmas binary64_eval =
  binary64_def expo_def pow2_def ties_even_def Let_def ilog2_numeral floor_numeral_div

lemma default_timeout: "py_int (fmul (timeout_s default_config) 1000000000) = 3000000000"
  by (simp add: default_config_def fmul_def py_int_def binary64_eval)

lemma default_window: "window_ns default_config = 500000000"
  by (simp add: window_ns_def default_config_def fmul_def py_int_def binary64_eval)

section \<open>The trial engine: one call\<close>

lemma on_detection_rejects:
  assumes "\<not> accepts c ts"
  shows "on_detection c dec ts payload = c"
proof (cases "active_trial_id c")
  case None
  then show ?thesis by (simp add: on_detection_def)
next
  case (Some tid)
  show ?thesis
  proof (cases "map_of (trials_map c) tid")
    case None
    with Some show ?thesis by (simp add: on_detection_def)
  next
    case (Some trial)
    with \<open>active_trial_id c = Some tid\<close> assms show ?thesis
      by (auto simp add: on_detection_def accepts_def)
  qed
qed

lemma accepts_cases:
  assumes "accepts c ts"
  obtains tid trial where "active_trial_id c = Some tid" "map_of (trials_map c) tid = Some trial"
    "t0_ns trial \<le> ts" "ts \<le> timeout_ns trial"
  using assms by (simp add: accepts_def split: option.splits)

lemma on_detection_accepted:
  assumes "active_trial_id c = Some tid" "map_of (trials_map c) tid = Some trial"
    "t0_ns trial \<le> ts" "ts \<le> timeout_ns trial"
  shows "on_detection c dec ts payload =
     c\<lparr>trials_map :=
         AList.update tid
           (trial\<lparr>per_decoder := (per_decoder trial)
              (dec \<mapsto> update_state (config c) dec ts payload (decoder_state c tid dec))\<rparr>)
           (trials_map c),
       logger := logger c @ [(event_row ts ''live'' dec ''PAYLOAD_DETECTED'')
          \<lparr>ev_trial_id := Some tid, ev_payload_string := Some payload\<rparr>]\<rparr>"
  using assms by (simp add: on_detection_def decoder_state_def logger_log_def Let_def)

lemma logger_on_detection:
  assumes "accepts c ts" "active_trial_id c = Some tid"
  shows "logger (on_detection c dec ts payload) =
     logger c @ [(event_row ts ''live'' dec ''PAYLOAD_DETECTED'')
        \<lparr>ev_trial_id := Some tid, ev_payload_string := Some payload\<rparr>]"
proof -
  from assms obtain trial where "map_of (trials_map c) tid = Some trial"
    "t0_ns trial \<le> ts" "ts \<le> timeout_ns trial"
    by (auto elim: accepts_cases)
  with assms(2) show ?thesis
    by (simp add: on_detection_accepted)
qed

lemma decoder_state_on_detection:
  "decoder_state (on_detection c dec ts payload) tid d =
     (if accepts c ts \<and> active_trial_id c = Some tid \<and> d = dec
      then update_state (config c) dec ts payload (decoder_state c tid dec)
      else decoder_state c tid d)"
proof (cases "accepts c ts")
  case False
  then show ?thesis by (simp add: on_detection_rejects)
next
  case True
  then obtain a trial where a: "active_trial_id c = Some a" "map_of (trials_map c) a = Some trial"
    "t0_ns trial \<le> ts" "ts \<le> timeout_ns trial"
    by (rule accepts_cases)
  show ?thesis
  proof (cases "tid = a")
    case True
    with a \<open>accepts c ts\<close> show ?thesis
      by (simp add: on_detection_accepted [OF a] decoder_state_def update_conv')
  next
    case False
    with a \<open>accepts c ts\<close> show ?thesis
      by (simp add: on_detection_accepted [OF a] decoder_state_def update_conv')
  qed
qed

lemma first_update_state:
  "first_detect_ns (update_state cfg dec ts payload st) =
     (case first_detect_ns st of None \<Rightarrow> Some ts | Some f \<Rightarrow> Some f)"
  by (simp add: update_state_def Let_def split: option.splits)

lemma on_detection_accepts_neq:
  assumes "accepts c ts"
  shows "on_detection c dec ts payload \<noteq> c"
proof
  assume e: "on_detection c dec ts payload = c"
  from assms obtain tid where "active_trial_id c = Some tid"
    by (auto elim: accepts_cases)
  from logger_on_detection [OF assms this, of dec payload] e show False by simp
qed

lemma started_eq:
  "active_trial_id started = Some 1 \<and>
   map_of (trials_map started) 1 =
     Some \<lparr>trial_id = 1, t0_ns = 1000, timeout_ns = 3000001000, per_decoder = Map.empty\<rparr>"
  by (simp add: started_def start_trial_def new_controller_def default_timeout Let_def)

text \<open>
  C1: \<^verbatim>\<open>on_detection\<close> returns the controller as it was when no trial is active (or the
  active id has no record) and when the timestamp lies outside \<open>[t0, timeout]\<close> of the
  active trial. Inside the interval the call is attributed: it appends a
  \<^verbatim>\<open>PAYLOAD_DETECTED\<close> event and the decoder has a first detection afterwards. The upper
  bound is inclusive: a timestamp equal to the timeout of a trial whose interval is not
  empty is attributed, and one nanosecond later it is not.
\<close>

theorem on_detection_window:
  "(active_trial_id c = None \<longrightarrow> on_detection c dec ts payload = c) \<and>
   (\<forall>tid. active_trial_id c = Some tid \<and> map_of (trials_map c) tid = None \<longrightarrow>
      on_detection c dec ts payload = c) \<and>
   (\<forall>tid trial. active_trial_id c = Some tid \<and> map_of (trials_map c) tid = Some trial \<longrightarrow>
      (ts < t0_ns trial \<or> timeout_ns trial < ts \<longrightarrow> on_detection c dec ts payload = c) \<and>
      (t0_ns trial \<le> ts \<and> ts \<le> timeout_ns trial \<longrightarrow>
         on_detection c dec ts payload \<noteq> c \<and>
         logger (on_detection c dec ts payload) =
           logger c @ [(event_row ts ''live'' dec ''PAYLOAD_DETECTED'')
              \<lparr>ev_trial_id := Some tid, ev_payload_string := Some payload\<rparr>] \<and>
         first_detect_ns (decoder_state (on_detection c dec ts payload) tid dec) \<noteq> None) \<and>
      (t0_ns trial \<le> timeout_ns trial \<longrightarrow> on_detection c dec (timeout_ns trial) payload \<noteq> c) \<and>
      on_detection c dec (timeout_ns trial + 1) payload = c)"
proof (intro conjI allI impI)
  assume "active_trial_id c = None"
  then show "on_detection c dec ts payload = c"
    by (simp add: on_detection_def)
next
  fix tid
  assume "active_trial_id c = Some tid \<and> map_of (trials_map c) tid = None"
  then show "on_detection c dec ts payload = c"
    by (simp add: on_detection_def)
next
  fix tid trial
  assume a: "active_trial_id c = Some tid \<and> map_of (trials_map c) tid = Some trial"
  assume "ts < t0_ns trial \<or> timeout_ns trial < ts"
  with a show "on_detection c dec ts payload = c"
    by (intro on_detection_rejects) (auto simp: accepts_def)
next
  fix tid trial
  assume a: "active_trial_id c = Some tid \<and> map_of (trials_map c) tid = Some trial"
  assume "t0_ns trial \<le> ts \<and> ts \<le> timeout_ns trial"
  with a have acc: "accepts c ts"
    by (simp add: accepts_def)
  show "on_detection c dec ts payload \<noteq> c"
    by (rule on_detection_accepts_neq [OF acc])
  show "logger (on_detection c dec ts payload) =
     logger c @ [(event_row ts ''live'' dec ''PAYLOAD_DETECTED'')
        \<lparr>ev_trial_id := Some tid, ev_payload_string := Some payload\<rparr>]"
    using acc a by (simp add: logger_on_detection)
  show "first_detect_ns (decoder_state (on_detection c dec ts payload) tid dec) \<noteq> None"
    using acc a by (simp add: decoder_state_on_detection first_update_state split: option.splits)
next
  fix tid trial
  assume a: "active_trial_id c = Some tid \<and> map_of (trials_map c) tid = Some trial"
  assume "t0_ns trial \<le> timeout_ns trial"
  with a have "accepts c (timeout_ns trial)"
    by (simp add: accepts_def)
  then show "on_detection c dec (timeout_ns trial) payload \<noteq> c"
    by (rule on_detection_accepts_neq)
next
  fix tid trial
  assume a: "active_trial_id c = Some tid \<and> map_of (trials_map c) tid = Some trial"
  then show "on_detection c dec (timeout_ns trial + 1) payload = c"
    by (intro on_detection_rejects) (auto simp: accepts_def)
qed

theorem on_detection_window_witness:
  "on_detection started ''VISION'' 3000001000 ''QR'' \<noteq> started \<and>
   on_detection started ''VISION'' 3000001001 ''QR'' = started \<and>
   on_detection started ''VISION'' 999 ''QR'' = started"
  using on_detection_window [of started "''VISION''" 3000001000 "''QR''"]
        on_detection_window [of started "''VISION''" 999 "''QR''"] started_eq
  by simp

section \<open>The trial engine: sequences of calls\<close>

lemma active_on_detection [simp]:
  "active_trial_id (on_detection c dec ts payload) = active_trial_id c"
proof (cases "accepts c ts")
  case True
  then obtain a trial where a: "active_trial_id c = Some a" "map_of (trials_map c) a = Some trial"
    "t0_ns trial \<le> ts" "ts \<le> timeout_ns trial"
    by (rule accepts_cases)
  show ?thesis by (simp add: on_detection_accepted [OF a])
qed (simp add: on_detection_rejects)

lemma config_on_detection [simp]:
  "config (on_detection c dec ts payload) = config c"
proof (cases "accepts c ts")
  case True
  then obtain a trial where a: "active_trial_id c = Some a" "map_of (trials_map c) a = Some trial"
    "t0_ns trial \<le> ts" "ts \<le> timeout_ns trial"
    by (rule accepts_cases)
  show ?thesis by (simp add: on_detection_accepted [OF a])
qed (simp add: on_detection_rejects)

lemma accepts_on_detection [simp]:
  "accepts (on_detection c dec ts payload) ts' = accepts c ts'"
proof (cases "accepts c ts")
  case True
  then obtain a trial where a: "active_trial_id c = Some a" "map_of (trials_map c) a = Some trial"
    "t0_ns trial \<le> ts" "ts \<le> timeout_ns trial"
    by (rule accepts_cases)
  show ?thesis by (simp add: on_detection_accepted [OF a] accepts_def update_conv' a)
qed (simp add: on_detection_rejects)

lemma attributed_Cons:
  "attributed c d ((dec, ts, payload) # evs) =
     (if dec = d \<and> accepts c ts then (ts, payload) # attributed c d evs else attributed c d evs)"
  by (simp add: attributed_def)

lemma attributed_on_detection [simp]:
  "attributed (on_detection c dec ts payload) d evs = attributed c d evs"
  by (simp add: attributed_def)

lemma accepts_detections [simp]: "accepts (detections c evs) ts = accepts c ts"
  by (induction c evs rule: detections.induct) simp_all

lemma active_detections [simp]: "active_trial_id (detections c evs) = active_trial_id c"
  by (induction c evs rule: detections.induct) simp_all

lemma config_detections [simp]: "config (detections c evs) = config c"
  by (induction c evs rule: detections.induct) simp_all

lemma decoder_state_detections:
  "decoder_state (detections c evs) tid d =
     (if active_trial_id c = Some tid
      then run_state (config c) d (decoder_state c tid d) (attributed c d evs)
      else decoder_state c tid d)"
proof (induction evs arbitrary: c)
  case Nil
  show ?case by (simp add: attributed_def)
next
  case (Cons e evs)
  obtain dec ts payload where e: "e = (dec, ts, payload)"
    by (cases e)
  show ?case
    unfolding e detections.simps Cons.IH
    by (simp add: attributed_Cons decoder_state_on_detection)
qed

lemma confirm_update_state_latched:
  "confirm_detect_ns st = Some k \<Longrightarrow> confirm_detect_ns (update_state cfg dec ts payload st) = Some k"
  by (simp add: update_state_def Let_def)

lemma first_update_state_latched:
  "first_detect_ns st = Some f \<Longrightarrow> first_detect_ns (update_state cfg dec ts payload st) = Some f"
  by (simp add: first_update_state)

lemma first_run_state_latched:
  "first_detect_ns st = Some f \<Longrightarrow> first_detect_ns (run_state cfg dec st es) = Some f"
  by (induction es arbitrary: st) (simp_all add: first_update_state_latched)

lemma confirm_run_state_latched:
  "confirm_detect_ns st = Some k \<Longrightarrow> confirm_detect_ns (run_state cfg dec st es) = Some k"
  by (induction es arbitrary: st) (simp_all add: confirm_update_state_latched)

lemma confirm_update_state:
  "confirm_detect_ns (update_state cfg dec ts payload st) =
     (case confirm_detect_ns st of
        Some k \<Rightarrow> Some k
      | None \<Rightarrow>
          if dec = ''AVFOUNDATION'' \<and> 1 < confirmations_required cfg
               \<and> matching payload (slide cfg ts payload (history st)) < confirmations_required cfg
          then first_detect_ns (update_state cfg dec ts payload st)
          else if confirmations_required cfg \<le> matching payload (slide cfg ts payload (history st))
          then Some ts else None)"
  by (simp add: update_state_def Let_def split: option.splits)

lemma history_update_state:
  "history (update_state cfg dec ts payload st) = slide cfg ts payload (history st)"
  by (simp add: update_state_def Let_def)

lemma ordered_update_state:
  assumes "ordered st" "case first_detect_ns st of None \<Rightarrow> True | Some f \<Rightarrow> f \<le> ts"
  shows "ordered (update_state cfg dec ts payload st)"
  using assms
  by (auto simp add: ordered_def confirm_update_state first_update_state split: option.splits)

lemma ordered_run_state:
  assumes "ordered st" "no_earlier (first_detect_ns st) es"
  shows "ordered (run_state cfg dec st es)"
  using assms
proof (induction es arbitrary: st)
  case Nil
  then show ?case by simp
next
  case (Cons e es)
  let ?st = "update_state cfg dec (fst e) (snd e) st"
  have "ordered ?st"
    using Cons.prems by (intro ordered_update_state) (auto simp: no_earlier_def split: option.splits)
  moreover have "no_earlier (first_detect_ns ?st) es"
    using Cons.prems by (auto simp: no_earlier_def first_update_state split: option.splits)
  ultimately show ?case
    using Cons.IH by simp
qed

text \<open>
  C2, under a condition on the order of the timestamps: over every sequence of \<^verbatim>\<open>on_detection\<close> calls the first detection and the
  confirmation of a (trial, decoder) pair, once set, keep their value; and the confirmation
  does not precede the first detection provided that none of the detections attributed to
  the pair is stamped earlier than the first detection of the pair.
\<close>

theorem confirmation_latched_and_ordered:
  "(first_detect_ns (decoder_state c tid d) = Some f \<longrightarrow>
      first_detect_ns (decoder_state (detections c evs) tid d) = Some f) \<and>
   (confirm_detect_ns (decoder_state c tid d) = Some k \<longrightarrow>
      confirm_detect_ns (decoder_state (detections c evs) tid d) = Some k) \<and>
   (ordered (decoder_state c tid d) \<and>
    no_earlier (first_detect_ns (decoder_state c tid d)) (attributed c d evs) \<longrightarrow>
      ordered (decoder_state (detections c evs) tid d))"
  by (simp add: decoder_state_detections first_run_state_latched confirm_run_state_latched
        ordered_run_state)

lemma started_state: "decoder_state started 1 d = new_state"
  using started_eq by (simp add: decoder_state_def)

lemma started_config: "config started = default_config"
  by (simp add: started_def start_trial_def new_controller_def Let_def)

lemma started_accepts: "accepts started ts = (1000 \<le> ts \<and> ts \<le> 3000001000)"
  using started_eq by (simp add: accepts_def)

lemma started_active: "active_trial_id started = Some 1"
  using started_eq by simp

lemma default_required: "confirmations_required default_config = 2"
  by (simp add: default_config_def)

lemmas state_eval = default_required started_active
  decoder_state_detections started_state started_config started_accepts attributed_def
  update_state_def slide_def matching_def default_window new_state_def Let_def

text \<open>
  The order of the two timestamps is not an invariant of the calls alone: when a decoder's
  second detection carries the smaller timestamp and confirms, the confirmation lies before
  the first detection.
\<close>

theorem confirmation_before_first_detection:
  "first_detect_ns (decoder_state (detections started late_arrival) 1 ''VISION'') = Some 2000 \<and>
   confirm_detect_ns (decoder_state (detections started late_arrival) 1 ''VISION'') = Some 1500"
  using started_eq by (simp add: late_arrival_def state_eval del: detections.simps)

theorem confirmation_latched_and_ordered_witness:
  "first_detect_ns (decoder_state
      (detections (detections started in_order) [(''VISION'', 3500, ''QR'')]) 1 ''VISION'') = Some 2000 \<and>
   confirm_detect_ns (decoder_state
      (detections (detections started in_order) [(''VISION'', 3500, ''QR'')]) 1 ''VISION'') = Some 3000 \<and>
   ordered (decoder_state
      (detections (detections started in_order) [(''VISION'', 3500, ''QR'')]) 1 ''VISION'')"
proof -
  let ?c = "detections started in_order"
  have f: "first_detect_ns (decoder_state ?c 1 ''VISION'') = Some 2000"
    by (simp add: in_order_def state_eval del: detections.simps)
  have k: "confirm_detect_ns (decoder_state ?c 1 ''VISION'') = Some 3000"
    by (simp add: in_order_def state_eval del: detections.simps)
  have o: "ordered (decoder_state ?c 1 ''VISION'')"
    by (simp add: ordered_def f k)
  have a: "attributed ?c ''VISION'' [(''VISION'', 3500, ''QR'')] = [(3500, ''QR'')]"
    by (simp add: attributed_def started_accepts)
  have n: "no_earlier (first_detect_ns (decoder_state ?c 1 ''VISION''))
      (attributed ?c ''VISION'' [(''VISION'', 3500, ''QR'')])"
    unfolding f a by (simp add: no_earlier_def)
  from confirmation_latched_and_ordered
    [of ?c 1 "''VISION''" 2000 "[(''VISION'', 3500, ''QR'')]" 3000] f k o n
  show ?thesis by simp
qed

text \<open>
  C9: \<^verbatim>\<open>end_trial\<close> records a \<^verbatim>\<open>TRIAL_END\<close> event and nothing else: the trial map, the
  active trial and the configuration are as before. \<^verbatim>\<open>on_detection\<close> leaves the active
  trial as it is too; \<^verbatim>\<open>start_trial\<close> is the one operation that sets it.
\<close>

theorem end_trial_frame:
  "trials_map (end_trial c tid now) = trials_map c \<and>
   active_trial_id (end_trial c tid now) = active_trial_id c \<and>
   config (end_trial c tid now) = config c \<and>
   logger (end_trial c tid now) =
     logger c @ [(event_row now ''live'' ''SYSTEM'' ''TRIAL_END'')\<lparr>ev_trial_id := Some tid\<rparr>] \<and>
   active_trial_id (on_detection c dec ts payload) = active_trial_id c \<and>
   active_trial_id (start_trial c tid' t0) = Some tid'"
  by (simp add: end_trial_def start_trial_def logger_log_def Let_def)

section \<open>The confirmation policy\<close>

lemma region_update_state:
  assumes "1 < confirmations_required cfg" "confirm_detect_ns st = first_detect_ns st"
  shows "confirm_detect_ns (update_state cfg ''AVFOUNDATION'' ts payload st) =
         first_detect_ns (update_state cfg ''AVFOUNDATION'' ts payload st)"
  using assms by (cases "first_detect_ns st") (simp_all add: confirm_update_state first_update_state)

lemma region_run_state:
  assumes "1 < confirmations_required cfg" "confirm_detect_ns st = first_detect_ns st"
  shows "confirm_detect_ns (run_state cfg ''AVFOUNDATION'' st es) =
         first_detect_ns (run_state cfg ''AVFOUNDATION'' st es)"
  using assms(2)
  by (induction es arbitrary: st) (simp_all add: region_update_state [OF assms(1)])

text \<open>
  C10: with \<^verbatim>\<open>confirmations_required > 1\<close>, the first detection that is attributed to a
  trial for the decoder \<^verbatim>\<open>AVFOUNDATION\<close> sets the confirmation together with the first
  detection, to the same timestamp; and after any sequence of calls on a trial that began
  with the two equal (as in a trial just started) they are equal still, however often a
  payload repeats within the window.
\<close>

theorem region_detector_confirms_at_once:
  "(accepts c ts \<and> active_trial_id c = Some tid \<and> 1 < confirmations_required (config c) \<and>
    first_detect_ns (decoder_state c tid ''AVFOUNDATION'') = None \<and>
    confirm_detect_ns (decoder_state c tid ''AVFOUNDATION'') = None \<longrightarrow>
      first_detect_ns (decoder_state (on_detection c ''AVFOUNDATION'' ts payload) tid ''AVFOUNDATION'')
        = Some ts \<and>
      confirm_detect_ns (decoder_state (on_detection c ''AVFOUNDATION'' ts payload) tid ''AVFOUNDATION'')
        = Some ts) \<and>
   (1 < confirmations_required (config c) \<and>
    confirm_detect_ns (decoder_state c tid ''AVFOUNDATION'') =
      first_detect_ns (decoder_state c tid ''AVFOUNDATION'') \<longrightarrow>
      confirm_detect_ns (decoder_state (detections c evs) tid ''AVFOUNDATION'') =
        first_detect_ns (decoder_state (detections c evs) tid ''AVFOUNDATION''))"
proof (intro conjI impI)
  assume a: "accepts c ts \<and> active_trial_id c = Some tid \<and> 1 < confirmations_required (config c) \<and>
    first_detect_ns (decoder_state c tid ''AVFOUNDATION'') = None \<and>
    confirm_detect_ns (decoder_state c tid ''AVFOUNDATION'') = None"
  let ?st = "decoder_state c tid ''AVFOUNDATION''"
  have f: "first_detect_ns (update_state (config c) ''AVFOUNDATION'' ts payload ?st) = Some ts"
    using a by (simp add: first_update_state)
  moreover have "confirm_detect_ns (update_state (config c) ''AVFOUNDATION'' ts payload ?st) =
      first_detect_ns (update_state (config c) ''AVFOUNDATION'' ts payload ?st)"
    using a by (intro region_update_state) simp_all
  ultimately show
    "first_detect_ns (decoder_state (on_detection c ''AVFOUNDATION'' ts payload) tid ''AVFOUNDATION'')
        = Some ts"
    "confirm_detect_ns (decoder_state (on_detection c ''AVFOUNDATION'' ts payload) tid ''AVFOUNDATION'')
        = Some ts"
    using a by (simp_all add: decoder_state_on_detection)
next
  assume "1 < confirmations_required (config c) \<and>
    confirm_detect_ns (decoder_state c tid ''AVFOUNDATION'') =
      first_detect_ns (decoder_state c tid ''AVFOUNDATION'')"
  then show "confirm_detect_ns (decoder_state (detections c evs) tid ''AVFOUNDATION'') =
        first_detect_ns (decoder_state (detections c evs) tid ''AVFOUNDATION'')"
    by (simp add: decoder_state_detections region_run_state)
qed

theorem region_detector_confirms_at_once_witness:
  "first_detect_ns (decoder_state (on_detection started ''AVFOUNDATION'' 2000 ''QR'') 1 ''AVFOUNDATION'')
     = Some 2000 \<and>
   confirm_detect_ns (decoder_state (on_detection started ''AVFOUNDATION'' 2000 ''QR'') 1 ''AVFOUNDATION'')
     = Some 2000 \<and>
   confirm_detect_ns (decoder_state (detections started repeated) 1 ''AVFOUNDATION'') = Some 2000 \<and>
   first_detect_ns (decoder_state (detections started repeated) 1 ''AVFOUNDATION'') = Some 2000"
proof -
  have f: "first_detect_ns (decoder_state (detections started repeated) 1 ''AVFOUNDATION'') = Some 2000"
    by (simp add: repeated_def state_eval del: detections.simps)
  from region_detector_confirms_at_once [of started 2000 1 "''QR''" repeated] f
  show ?thesis
    by (simp add: started_accepts started_active started_state started_config default_required
          new_state_def)
qed

lemma region_fallback_run_state:
  assumes "1 < confirmations_required cfg" "first_detect_ns st = None" "confirm_detect_ns st = None"
    "es \<noteq> []"
  shows "confirm_detect_ns (run_state cfg ''AVFOUNDATION'' st es) = Some (fst (hd es)) \<and>
         first_detect_ns (run_state cfg ''AVFOUNDATION'' st es) = Some (fst (hd es))"
proof -
  from assms(4) obtain e r where es: "es = e # r"
    by (cases es) auto
  let ?st = "update_state cfg ''AVFOUNDATION'' (fst e) (snd e) st"
  have f: "first_detect_ns ?st = Some (fst e)"
    using assms(2) by (simp add: first_update_state)
  have "confirm_detect_ns ?st = first_detect_ns ?st"
    using assms by (intro region_update_state) simp_all
  with f have "confirm_detect_ns ?st = Some (fst e)"
    by simp
  with f show ?thesis
    unfolding es by (simp add: confirm_run_state_latched first_run_state_latched)
qed

section \<open>The sliding history\<close>

lemma evict_suffix: "\<exists>ys. h = ys @ evict ts w h"
proof (induction h)
  case Nil
  show ?case by simp
next
  case (Cons e h)
  show ?case
  proof (cases "ts - snd e > w")
    case True
    from Cons obtain ys where "h = ys @ evict ts w h" ..
    then have "e # h = (e # ys) @ evict ts w h"
      by simp
    with True show ?thesis
      by (metis evict.simps(2))
  next
    case False
    then have "e # h = [] @ evict ts w (e # h)"
      by simp
    then show ?thesis ..
  qed
qed

lemma evict_within:
  assumes "sorted (map snd h)"
  shows "list_all (\<lambda>e. ts - snd e \<le> w) (evict ts w h)"
  using assms
proof (induction h)
  case Nil
  show ?case by simp
next
  case (Cons e h)
  show ?case
  proof (cases "ts - snd e > w")
    case True
    with Cons show ?thesis by simp
  next
    case False
    moreover from Cons.prems have "\<forall>x\<in>set h. snd e \<le> snd x"
      by simp
    ultimately show ?thesis
      by (auto simp: list_all_iff)
  qed
qed

lemma sorted_slide:
  assumes "sorted (map snd (h @ [(p, ts)]) @ rest)"
  shows "sorted (map snd (slide cfg ts p h) @ rest)"
proof -
  obtain ys where "h @ [(p, ts)] = ys @ slide cfg ts p h"
    unfolding slide_def using evict_suffix by blast
  with assms have "sorted (map snd ys @ (map snd (slide cfg ts p h) @ rest))"
    by (metis append.assoc map_append)
  then show ?thesis
    by (simp add: sorted_append)
qed

lemma run_state_snoc:
  "run_state cfg dec st (es @ [e]) = update_state cfg dec (fst e) (snd e) (run_state cfg dec st es)"
  by (induction es arbitrary: st) simp_all

lemma sorted_run_state:
  assumes "sorted (map snd (history st) @ map fst es @ rest)"
  shows "sorted (map snd (history (run_state cfg dec st es)) @ rest)"
  using assms
proof (induction es arbitrary: st)
  case Nil
  then show ?case by simp
next
  case (Cons e es)
  from Cons.prems
  have "sorted (map snd (history st @ [(snd e, fst e)]) @ (map fst es @ rest))"
    by simp
  then have "sorted (map snd (slide cfg (fst e) (snd e) (history st)) @ (map fst es @ rest))"
    by (rule sorted_slide)
  then show ?case
    using Cons.IH [of "update_state cfg dec (fst e) (snd e) st"]
    by (simp add: history_update_state)
qed

lemma window_run_state:
  assumes "es \<noteq> []" "sorted (map snd (history st) @ map fst es)"
  shows "list_all (\<lambda>e. fst (last es) - snd e \<le> window_ns cfg) (history (run_state cfg dec st es))"
proof -
  from assms(1) obtain es' e where es: "es = es' @ [e]"
    by (metis rev_exhaust)
  let ?st = "run_state cfg dec st es'"
  from assms(2) have "sorted (map snd (history ?st) @ [fst e])"
    unfolding es using sorted_run_state [of st es' "[fst e]" cfg dec] by simp
  then have "sorted (map snd (history ?st @ [(snd e, fst e)]))"
    by simp
  then have "list_all (\<lambda>x. fst e - snd x \<le> window_ns cfg)
      (evict (fst e) (window_ns cfg) (history ?st @ [(snd e, fst e)]))"
    by (rule evict_within)
  then show ?thesis
    unfolding es by (simp add: run_state_snoc history_update_state slide_def)
qed

text \<open>
  C5, for timestamps in order: when the timestamps of the history of a (trial, decoder) pair followed by
  those of the detections attributed to the pair do not decrease, then after the last of
  these detections the history has no entry older than the confirmation window relative
  to that detection. This holds after every attributed detection, the sequence being
  arbitrary.
\<close>

theorem history_within_window:
  "active_trial_id c = Some tid \<and> attributed c d evs \<noteq> [] \<and>
   sorted (map snd (history (decoder_state c tid d)) @ map fst (attributed c d evs)) \<longrightarrow>
     list_all (\<lambda>e. fst (last (attributed c d evs)) - snd e \<le> window_ns (config c))
       (history (decoder_state (detections c evs) tid d))"
  by (simp add: decoder_state_detections window_run_state)

theorem history_within_window_witness:
  "list_all (\<lambda>e. 3000 - snd e \<le> window_ns (config started))
     (history (decoder_state (detections started in_order) 1 ''VISION'')) \<and>
   history (decoder_state (detections started in_order) 1 ''VISION'') =
     [(''QR'', 2000), (''QR'', 3000)]"
proof -
  have b: "attributed started ''VISION'' in_order = [(2000, ''QR''), (3000, ''QR'')]"
    by (simp add: in_order_def attributed_def started_accepts)
  have h: "history (decoder_state (detections started in_order) 1 ''VISION'') =
     [(''QR'', 2000), (''QR'', 3000)]"
    by (simp add: in_order_def state_eval del: detections.simps)
  from history_within_window [of started 1 "''VISION''" in_order] h
  show ?thesis
    unfolding b by (simp add: started_active started_state new_state_def)
qed

text \<open>
  Without the order the bound fails: the loop stops at the first entry that is young
  enough and keeps an older one behind it.
\<close>

theorem history_keeps_stale_entry:
  "history (decoder_state (detections started stale_arrival) 1 ''VISION'') =
     [(''QR'', 600000000), (''QS'', 100000000), (''QR'', 700000000)] \<and>
   window_ns (config started) < 700000000 - 100000000"
  by (simp add: stale_arrival_def state_eval del: detections.simps)

section \<open>The confirmation threshold\<close>

lemma evict_filter:
  assumes "sorted (map snd l)"
  shows "evict ts w l = filter (\<lambda>x. ts - snd x \<le> w) l"
  using assms
proof (induction l)
  case Nil
  show ?case by simp
next
  case (Cons e l)
  show ?case
  proof (cases "ts - snd e > w")
    case True
    with Cons show ?thesis by simp
  next
    case False
    from Cons.prems have "\<forall>x\<in>set l. snd e \<le> snd x"
      by simp
    with False have "\<forall>x\<in>set l. ts - snd x \<le> w"
      by fastforce
    then have "filter (\<lambda>x. ts - snd x \<le> w) l = l"
      by (simp add: filter_id_conv)
    with False show ?thesis by simp
  qed
qed

lemma evict_dropped: "\<exists>ys. l = ys @ evict ts w l \<and> (\<forall>x\<in>set ys. w < ts - snd x)"
proof (induction l)
  case Nil
  show ?case by simp
next
  case (Cons e l)
  show ?case
  proof (cases "ts - snd e > w")
    case True
    from Cons obtain ys where "l = ys @ evict ts w l" "\<forall>x\<in>set ys. w < ts - snd x"
      by blast
    with True have "e # l = (e # ys) @ evict ts w (e # l) \<and> (\<forall>x\<in>set (e # ys). w < ts - snd x)"
      by simp
    then show ?thesis ..
  next
    case False
    then have "e # l = [] @ evict ts w (e # l) \<and> (\<forall>x\<in>set []. w < ts - snd x)"
      by simp
    then show ?thesis ..
  qed
qed

text \<open>
  While the timestamps arrive in order, the count that \<^verbatim>\<open>on_detection\<close> takes in its
  history is the count of the specification: \<open>dropped\<close> are the entries evicted so far.
\<close>

lemma matching_slide:
  assumes "sorted (map snd h @ [ts])" "\<forall>x\<in>set dropped. window_ns cfg < ts - snd x"
  shows "matching payload (slide cfg ts payload h) =
         spec_count cfg ((dropped @ h) @ [(payload, ts)]) ts payload"
proof -
  from assms(1) have "sorted (map snd (h @ [(payload, ts)]))"
    by simp
  then have s: "slide cfg ts payload h =
      filter (\<lambda>x. ts - snd x \<le> window_ns cfg) (h @ [(payload, ts)])"
    unfolding slide_def by (rule evict_filter)
  from assms(2) have "filter (\<lambda>x. fst x = payload \<and> ts - snd x \<le> window_ns cfg) dropped = []"
    by (auto simp: filter_empty_conv)
  then show ?thesis
    unfolding s matching_def spec_count_def
    by (simp add: conj_commute)
qed

lemma threshold_run_state:
  assumes "dec \<noteq> ''AVFOUNDATION''" "confirm_detect_ns st = None"
    "sorted (map snd (history st) @ map fst es)"
    "\<forall>x\<in>set dropped. \<forall>e\<in>set es. window_ns cfg < fst e - snd x"
  shows "confirm_detect_ns (run_state cfg dec st es) =
         spec_threshold_ts cfg (dropped @ history st) es"
  using assms(2-)
proof (induction es arbitrary: st dropped)
  case Nil
  then show ?case by simp
next
  case (Cons e es)
  let ?st = "update_state cfg dec (fst e) (snd e) st"
  let ?h = "slide cfg (fst e) (snd e) (history st)"
  from Cons.prems(2) have "sorted (map snd (history st) @ [fst e])"
    by (simp add: sorted_append)
  moreover from Cons.prems(3) have "\<forall>x\<in>set dropped. window_ns cfg < fst e - snd x"
    by simp
  ultimately have count: "matching (snd e) ?h =
      spec_count cfg ((dropped @ history st) @ [(snd e, fst e)]) (fst e) (snd e)"
    by (rule matching_slide)
  show ?case
  proof (cases "confirmations_required cfg \<le> matching (snd e) ?h")
    case True
    with Cons.prems(1) assms(1) have "confirm_detect_ns ?st = Some (fst e)"
      by (simp add: confirm_update_state)
    then have "confirm_detect_ns (run_state cfg dec ?st es) = Some (fst e)"
      by (rule confirm_run_state_latched)
    with True count show ?thesis
      by simp
  next
    case False
    with Cons.prems(1) assms(1) have none: "confirm_detect_ns ?st = None"
      by (simp add: confirm_update_state)
    obtain ys where ys: "history st @ [(snd e, fst e)] = ys @ ?h"
      "\<forall>x\<in>set ys. window_ns cfg < fst e - snd x"
      unfolding slide_def using evict_dropped by blast
    from Cons.prems(2) have "sorted (map snd (history st @ [(snd e, fst e)]) @ map fst es)"
      by simp
    then have sorted: "sorted (map snd (history ?st) @ map fst es)"
      unfolding history_update_state by (rule sorted_slide)
    from Cons.prems(2) have later: "\<forall>e'\<in>set es. fst e \<le> fst e'"
      by (simp add: sorted_append)
    have old: "\<forall>x\<in>set (dropped @ ys). \<forall>e'\<in>set es. window_ns cfg < fst e' - snd x"
    proof (intro ballI)
      fix x e'
      assume x: "x \<in> set (dropped @ ys)" and e': "e' \<in> set es"
      show "window_ns cfg < fst e' - snd x"
      proof (cases "x \<in> set dropped")
        case True
        with Cons.prems(3) e' show ?thesis by simp
      next
        case False
        with x have "x \<in> set ys" by simp
        with ys(2) have "window_ns cfg < fst e - snd x" by simp
        moreover from later e' have "fst e \<le> fst e'" by simp
        ultimately show ?thesis by linarith
      qed
    qed
    have seen: "(dropped @ history st) @ [(snd e, fst e)] = (dropped @ ys) @ history ?st"
      using ys(1) by (simp add: history_update_state)
    have "spec_threshold_ts cfg ((dropped @ history st) @ [(snd e, fst e)]) es =
        spec_threshold_ts cfg ((dropped @ ys) @ history ?st) es"
      by (simp only: seen)
    with Cons.IH [OF none sorted old] False count show ?thesis
      by simp
  qed
qed

text \<open>
  C3, for timestamps in order: in a trial that is active and has no detection of the
  decoder yet: for the decoder \<^verbatim>\<open>AVFOUNDATION\<close> with \<^verbatim>\<open>confirmations_required > 1\<close>, if the
  count of the matching payloads within the window never reaches the threshold over the
  attributed detections, the confirmation is set, to the decoder's first detection; for
  every other decoder whose attributed detections carry timestamps that do not decrease,
  the confirmation is the timestamp of the detection at which that count first reaches
  the threshold, and unset as long as none does.
\<close>

theorem confirmation_policy:
  "active_trial_id c = Some tid \<and>
   first_detect_ns (decoder_state c tid d) = None \<and>
   confirm_detect_ns (decoder_state c tid d) = None \<longrightarrow>
     (d = ''AVFOUNDATION'' \<and> 1 < confirmations_required (config c) \<and> attributed c d evs \<noteq> [] \<and>
      spec_threshold_ts (config c) (history (decoder_state c tid d)) (attributed c d evs) = None \<longrightarrow>
        confirm_detect_ns (decoder_state (detections c evs) tid d) =
          first_detect_ns (decoder_state (detections c evs) tid d) \<and>
        first_detect_ns (decoder_state (detections c evs) tid d) = Some (fst (hd (attributed c d evs)))) \<and>
     (d \<noteq> ''AVFOUNDATION'' \<and>
      sorted (map snd (history (decoder_state c tid d)) @ map fst (attributed c d evs)) \<longrightarrow>
        confirm_detect_ns (decoder_state (detections c evs) tid d) =
          spec_threshold_ts (config c) (history (decoder_state c tid d)) (attributed c d evs))"
proof (intro impI conjI)
  assume a: "active_trial_id c = Some tid \<and>
   first_detect_ns (decoder_state c tid d) = None \<and>
   confirm_detect_ns (decoder_state c tid d) = None"
  {
    assume b: "d = ''AVFOUNDATION'' \<and> 1 < confirmations_required (config c) \<and>
      attributed c d evs \<noteq> [] \<and>
      spec_threshold_ts (config c) (history (decoder_state c tid d)) (attributed c d evs) = None"
    from b have d: "d = ''AVFOUNDATION''" "1 < confirmations_required (config c)"
      "attributed c d evs \<noteq> []"
      by auto
    from a have "first_detect_ns (decoder_state c tid d) = None"
      "confirm_detect_ns (decoder_state c tid d) = None"
      by simp_all
    with d(2) have "confirm_detect_ns (run_state (config c) ''AVFOUNDATION''
          (decoder_state c tid d) (attributed c d evs)) = Some (fst (hd (attributed c d evs))) \<and>
        first_detect_ns (run_state (config c) ''AVFOUNDATION''
          (decoder_state c tid d) (attributed c d evs)) = Some (fst (hd (attributed c d evs)))"
      using d(3) by (rule region_fallback_run_state)
    with a b show
      "confirm_detect_ns (decoder_state (detections c evs) tid d) =
          first_detect_ns (decoder_state (detections c evs) tid d)"
      "first_detect_ns (decoder_state (detections c evs) tid d) = Some (fst (hd (attributed c d evs)))"
      by (simp_all add: decoder_state_detections)
  }
  assume b: "d \<noteq> ''AVFOUNDATION'' \<and>
      sorted (map snd (history (decoder_state c tid d)) @ map fst (attributed c d evs))"
  let ?st = "decoder_state c tid d"
  from b have "d \<noteq> ''AVFOUNDATION''"
    by simp
  moreover from a have "confirm_detect_ns ?st = None"
    by simp
  moreover from b have "sorted (map snd (history ?st) @ map fst (attributed c d evs))"
    by simp
  moreover have "\<forall>x\<in>set []. \<forall>e\<in>set (attributed c d evs).
      window_ns (config c) < fst e - snd x"
    by simp
  ultimately have "confirm_detect_ns (run_state (config c) d ?st (attributed c d evs)) =
      spec_threshold_ts (config c) ([] @ history ?st) (attributed c d evs)"
    by (rule threshold_run_state)
  with a show "confirm_detect_ns (decoder_state (detections c evs) tid d) =
          spec_threshold_ts (config c) (history (decoder_state c tid d)) (attributed c d evs)"
    by (simp add: decoder_state_detections)
qed

theorem confirmation_policy_witness:
  "confirm_detect_ns (decoder_state (detections started two_payloads) 1 ''AVFOUNDATION'') = Some 2000 \<and>
   first_detect_ns (decoder_state (detections started two_payloads) 1 ''AVFOUNDATION'') = Some 2000 \<and>
   confirm_detect_ns (decoder_state (detections started in_order) 1 ''VISION'') = Some 3000 \<and>
   confirm_detect_ns (decoder_state (detections started [(''VISION'', 2000, ''QR'')]) 1 ''VISION'') = None \<and>
   confirm_detect_ns (decoder_state (detections started spaced) 1 ''VISION'') = None"
proof -
  have s: "attributed started ''VISION'' spaced = [(2000, ''QR''), (600000000, ''QR'')]"
    by (simp add: spaced_def attributed_def started_accepts)
  have a: "attributed started ''AVFOUNDATION'' two_payloads = [(2000, ''QR''), (2100, ''QS'')]"
    by (simp add: two_payloads_def attributed_def started_accepts)
  have b: "attributed started ''VISION'' in_order = [(2000, ''QR''), (3000, ''QR'')]"
    by (simp add: in_order_def attributed_def started_accepts)
  have c: "attributed started ''VISION'' [(''VISION'', 2000, ''QR'')] = [(2000, ''QR'')]"
    by (simp add: attributed_def started_accepts)
  from confirmation_policy [of started 1 "''AVFOUNDATION''" two_payloads]
       confirmation_policy [of started 1 "''VISION''" in_order]
       confirmation_policy [of started 1 "''VISION''" "[(''VISION'', 2000, ''QR'')]"]
       confirmation_policy [of started 1 "''VISION''" spaced]
  show ?thesis
    unfolding a b c s
    by (simp add: started_active started_state started_config default_required new_state_def
          spec_count_def default_window)
qed

text \<open>
  Without the order the threshold of the code is not that of the specification: the
  detection at \<open>700000000\<close> confirms on a count of two, one of them the entry at
  \<open>100000000\<close> that the loop left in the history, although it alone carries the payload
  within the window.
\<close>

theorem confirmation_counts_stale_entry:
  "confirm_detect_ns (decoder_state (detections started stale_repeat) 1 ''VISION'') =
     Some 700000000 \<and>
   history (decoder_state (detections started stale_repeat) 1 ''VISION'') =
     [(''QS'', 600000000), (''QR'', 100000000), (''QR'', 700000000)] \<and>
   spec_count (config started)
     [(''QS'', 600000000), (''QR'', 100000000), (''QR'', 700000000)] 700000000 ''QR'' = 1 \<and>
   spec_threshold_ts (config started) []
     [(600000000, ''QS''), (100000000, ''QR''), (700000000, ''QR'')] = None"
  by (simp add: stale_repeat_def state_eval spec_count_def del: detections.simps)

section \<open>Frame ingestion\<close>

lemma on_video_sample_eq:
  assumes "cam_throttle_n_frames s \<noteq> 0"
  shows "on_video_sample s ts =
     Inr (s\<lparr>cam_metrics := (cam_metrics s)\<lparr>frames_received := frames_received (cam_metrics s) + 1\<rparr>,
            cam_frame_index := cam_frame_index s + 1,
            cam_logger := cam_logger s @ [frame_received ts (cam_frame_index s + 1)],
            cam_executor := cam_executor s @
              (if (cam_frame_index s + 1) mod cam_throttle_n_frames s = 0
               then decode_tasks (cam_parallel_decode s) (cam_frame_index s + 1) else [])\<rparr>)"
  using assms by (simp add: on_video_sample_def Let_def logger_log_def)

lemma deliver_eq:
  assumes "cam_throttle_n_frames s \<noteq> 0"
  shows "deliver s tss =
     Inr (s\<lparr>cam_metrics := (cam_metrics s)
              \<lparr>frames_received := frames_received (cam_metrics s) + int (length tss)\<rparr>,
            cam_frame_index := cam_frame_index s + int (length tss),
            cam_logger := cam_logger s @
              map2 frame_received tss [cam_frame_index s + 1 .. cam_frame_index s + int (length tss)],
            cam_executor := cam_executor s @
              concat (map (decode_tasks (cam_parallel_decode s))
                (filter (\<lambda>i. i mod cam_throttle_n_frames s = 0)
                   [cam_frame_index s + 1 .. cam_frame_index s + int (length tss)]))\<rparr>)"
  using assms
proof (induction tss arbitrary: s)
  case Nil
  show ?case by simp
next
  case (Cons ts tss)
  let ?s = "s\<lparr>cam_metrics := (cam_metrics s)\<lparr>frames_received := frames_received (cam_metrics s) + 1\<rparr>,
            cam_frame_index := cam_frame_index s + 1,
            cam_logger := cam_logger s @ [frame_received ts (cam_frame_index s + 1)],
            cam_executor := cam_executor s @
              (if (cam_frame_index s + 1) mod cam_throttle_n_frames s = 0
               then decode_tasks (cam_parallel_decode s) (cam_frame_index s + 1) else [])\<rparr>"
  have n: "cam_throttle_n_frames ?s \<noteq> 0"
    using Cons.prems by simp
  have u: "[cam_frame_index s + 1 .. cam_frame_index s + int (length (ts # tss))] =
      (cam_frame_index s + 1) # [cam_frame_index s + 1 + 1 .. cam_frame_index s + 1 + int (length tss)]"
    by (subst upto_rec1) (simp_all add: add.assoc)
  show ?case
    unfolding deliver.simps on_video_sample_eq [OF Cons.prems] sum.case Cons.IH [OF n] u
    by (simp add: add.assoc)
qed

lemma frame_received_row:
  "frame_received ts i =
     \<lparr>ev_timestamp_ns = ts, ev_mode = ''live'', ev_decoder = ''PIPELINE'',
      ev_event_type = ''FRAME_RECEIVED'', ev_trial_id = None, ev_frame_index = Some i,
      ev_conversion_ms = None, ev_decode_duration_ms = None, ev_payload_string = None,
      ev_payload_changed = None\<rparr>"
  by (simp add: frame_received_def event_row_def)

text \<open>
  C6: a session whose throttle factor is \<open>N \<ge> 1\<close> and whose last sequence number is \<open>k\<close>
  gives the frames it receives the numbers \<open>k + 1, k + 2, \<dots>\<close>, records for each an event
  of type \<^verbatim>\<open>FRAME_RECEIVED\<close> that carries the number as its frame index, and submits the
  decode tasks, for the decoders \<^verbatim>\<open>VISION\<close> and \<^verbatim>\<open>ZXING\<close>, of exactly the frames whose
  number is \<open>0\<close> modulo \<open>N\<close>. A new session starts at \<open>k = 0\<close>, so its first frame has the
  number \<open>1\<close>, and its throttle factor is the configured one, or \<open>1\<close> when that is smaller.
\<close>

theorem frames_numbered_and_throttled:
  "(1 \<le> cam_throttle_n_frames s \<longrightarrow>
      deliver s tss =
        Inr (s\<lparr>cam_metrics := (cam_metrics s)
                 \<lparr>frames_received := frames_received (cam_metrics s) + int (length tss)\<rparr>,
               cam_frame_index := cam_frame_index s + int (length tss),
               cam_logger := cam_logger s @
                 map2 (\<lambda>ts i.
                     \<lparr>ev_timestamp_ns = ts, ev_mode = ''live'', ev_decoder = ''PIPELINE'',
                      ev_event_type = ''FRAME_RECEIVED'', ev_trial_id = None,
                      ev_frame_index = Some i, ev_conversion_ms = None,
                      ev_decode_duration_ms = None, ev_payload_string = None,
                      ev_payload_changed = None\<rparr>)
                   tss [cam_frame_index s + 1 .. cam_frame_index s + int (length tss)],
               cam_executor := cam_executor s @
                 concat (map (\<lambda>i. if cam_parallel_decode s
                                  then [RunDecode [''VISION''] i, RunDecode [''ZXING''] i]
                                  else [RunDecode [''VISION'', ''ZXING''] i])
                   (filter (\<lambda>i. i mod cam_throttle_n_frames s = 0)
                      [cam_frame_index s + 1 .. cam_frame_index s + int (length tss)]))\<rparr>)) \<and>
   cam_frame_index (new_session lg n par) = 0 \<and>
   cam_throttle_n_frames (new_session lg n par) = max 1 n"
proof -
  have f: "frame_received =
      (\<lambda>ts i. \<lparr>ev_timestamp_ns = ts, ev_mode = ''live'', ev_decoder = ''PIPELINE'',
                ev_event_type = ''FRAME_RECEIVED'', ev_trial_id = None,
                ev_frame_index = Some i, ev_conversion_ms = None,
                ev_decode_duration_ms = None, ev_payload_string = None,
                ev_payload_changed = None\<rparr>)"
    by (intro ext) (rule frame_received_row)
  have d: "decode_tasks (cam_parallel_decode s) =
      (\<lambda>i. if cam_parallel_decode s
           then [RunDecode [''VISION''] i, RunDecode [''ZXING''] i]
           else [RunDecode [''VISION'', ''ZXING''] i])"
    by (intro ext) (simp add: decode_tasks_def)
  show ?thesis
    by (simp add: deliver_eq new_session_def f d)
qed

theorem frames_numbered_and_throttled_witness:
  "deliver (new_session [] 2 True) [10, 20] =
     Inr \<lparr>cam_logger =
            [\<lparr>ev_timestamp_ns = 10, ev_mode = ''live'', ev_decoder = ''PIPELINE'',
              ev_event_type = ''FRAME_RECEIVED'', ev_trial_id = None, ev_frame_index = Some 1,
              ev_conversion_ms = None, ev_decode_duration_ms = None, ev_payload_string = None,
              ev_payload_changed = None\<rparr>,
             \<lparr>ev_timestamp_ns = 20, ev_mode = ''live'', ev_decoder = ''PIPELINE'',
              ev_event_type = ''FRAME_RECEIVED'', ev_trial_id = None, ev_frame_index = Some 2,
              ev_conversion_ms = None, ev_decode_duration_ms = None, ev_payload_string = None,
              ev_payload_changed = None\<rparr>],
          cam_throttle_n_frames = 2, cam_parallel_decode = True,
          cam_metrics = \<lparr>frames_received = 2, frames_processed = 0, dropped_frames = 0\<rparr>,
          cam_dropped_frames = 0, cam_frame_index = 2,
          cam_executor = [RunDecode [''VISION''] 2, RunDecode [''ZXING''] 2],
          cam_decode_queue = []\<rparr>"
proof -
  have u: "[1 .. 2] = [1, 2 :: int]"
    by (simp add: upto_rec1)
  from frames_numbered_and_throttled [of "new_session [] 2 True" "[10, 20]" "[]" 2 True]
  show ?thesis
    by (simp add: new_session_def u)
qed

section \<open>Decode dispatch\<close>

lemma saturated_reached: "deliver (new_session [] 1 True) [5, 6] = Inr saturated"
  by (simp add: new_session_def saturated_def on_video_sample_def Let_def logger_log_def
        decode_tasks_def)

text \<open>
  C4, as the dispatcher is written: a sampled frame has its decode tasks appended to the work of the pool
  whatever the number of tasks pending there; the call records the \<^verbatim>\<open>FRAME_RECEIVED\<close>
  event and no other, and does not touch \<^verbatim>\<open>_decode_queue\<close>.
\<close>

theorem submission_unconditional:
  "cam_throttle_n_frames s \<noteq> 0 \<and> (cam_frame_index s + 1) mod cam_throttle_n_frames s = 0 \<longrightarrow>
     (\<exists>s'. on_video_sample s ts = Inr s' \<and>
        cam_executor s' =
          cam_executor s @ decode_tasks (cam_parallel_decode s) (cam_frame_index s + 1) \<and>
        cam_logger s' = cam_logger s @ [frame_received ts (cam_frame_index s + 1)] \<and>
        cam_decode_queue s' = cam_decode_queue s)"
  by (simp add: on_video_sample_eq)

theorem submission_unconditional_witness:
  "\<exists>s'. on_video_sample saturated 7 = Inr s' \<and>
     cam_executor s' = cam_executor saturated @ [RunDecode [''VISION''] 3, RunDecode [''ZXING''] 3] \<and>
     cam_logger s' = cam_logger saturated @ [frame_received 7 3] \<and>
     cam_decode_queue s' = cam_decode_queue saturated"
proof -
  have "cam_throttle_n_frames saturated \<noteq> 0 \<and>
      (cam_frame_index saturated + 1) mod cam_throttle_n_frames saturated = 0"
    by (simp add: saturated_def)
  moreover have "decode_tasks (cam_parallel_decode saturated) (cam_frame_index saturated + 1) =
      [RunDecode [''VISION''] 3, RunDecode [''ZXING''] 3]"
    by (simp add: saturated_def decode_tasks_def)
  moreover have "cam_frame_index saturated + 1 = 3"
    by (simp add: saturated_def)
  ultimately show ?thesis
    using submission_unconditional [of saturated 7] by simp
qed

text \<open>
  With four tasks pending, more than the bound of \<^verbatim>\<open>_decode_queue\<close>, the next sampled frame
  is submitted all the same, and the log gains the \<^verbatim>\<open>FRAME_RECEIVED\<close> event alone.
\<close>

theorem saturated_pool_still_submits:
  "decode_queue_maxsize < length (cam_executor saturated) \<and>
   on_video_sample saturated 7 =
     Inr (saturated
       \<lparr>cam_metrics := \<lparr>frames_received = 3, frames_processed = 0, dropped_frames = 0\<rparr>,
        cam_frame_index := 3,
        cam_logger := [frame_received 5 1, frame_received 6 2, frame_received 7 3],
        cam_executor := [RunDecode [''VISION''] 1, RunDecode [''ZXING''] 1,
                         RunDecode [''VISION''] 2, RunDecode [''ZXING''] 2,
                         RunDecode [''VISION''] 3, RunDecode [''ZXING''] 3]\<rparr>)"
  by (simp add: saturated_def decode_queue_maxsize_def on_video_sample_def Let_def logger_log_def
        decode_tasks_def)

section \<open>Rounding to binary64\<close>

lemma ilog2_bounds: "0 < n \<Longrightarrow> 2 ^ ilog2 n \<le> n \<and> n < 2 ^ Suc (ilog2 n)"
proof (induction n rule: ilog2.induct)
  case (1 n)
  show ?case
  proof (cases "n < 2")
    case True
    with "1.prems" show ?thesis
      by (subst (1 2) ilog2.simps) simp
  next
    case False
    then have "0 < n div 2"
      by simp
    with False "1.IH" have "2 ^ ilog2 (n div 2) \<le> n div 2 \<and> n div 2 < 2 ^ Suc (ilog2 (n div 2))"
      by simp
    then have "2 * 2 ^ ilog2 (n div 2) \<le> n \<and> n < 2 * 2 ^ Suc (ilog2 (n div 2))"
      by linarith
    with False show ?thesis
      by (subst (1 2) ilog2.simps) simp
  qed
qed

lemma pow2_nat: "pow2 (int k) = 2 ^ k"
  by (simp add: pow2_def)

lemma pow2_neg: "pow2 (- int k) = 1 / 2 ^ k"
  by (cases "k = 0") (simp_all add: pow2_def)

lemma pow2_Suc: "pow2 (k + 1) = 2 * pow2 k"
proof (cases "0 \<le> k")
  case True
  then show ?thesis
    by (simp add: pow2_def nat_add_distrib)
next
  case False
  then obtain m where m: "nat (- k) = Suc m"
    by (cases "nat (- k)") simp_all
  then have "nat (- (k + 1)) = m"
    by simp
  with m False show ?thesis
    by (cases "k = - 1") (simp_all add: pow2_def)
qed

text \<open>The exponent is the one the definition of \<open>expo\<close> announces.\<close>

lemma expo_bounds:
  assumes "x \<noteq> 0"
  shows "pow2 (expo x) \<le> \<bar>x\<bar> \<and> \<bar>x\<bar> < pow2 (expo x + 1)"
proof (cases "1 \<le> \<bar>x\<bar>")
  case True
  let ?n = "nat \<lfloor>\<bar>x\<bar>\<rfloor>"
  from True have n: "0 < ?n"
    by simp
  from ilog2_bounds [OF n] have b: "2 ^ ilog2 ?n \<le> ?n" "?n < 2 ^ Suc (ilog2 ?n)"
    by simp_all
  have "(of_nat ?n :: rat) \<le> \<bar>x\<bar>"
    using True by simp
  moreover from b(1) have "(2 :: rat) ^ ilog2 ?n \<le> of_nat ?n"
    by (metis of_nat_le_iff of_nat_numeral of_nat_power)
  ultimately have lo: "2 ^ ilog2 ?n \<le> \<bar>x\<bar>"
    by linarith
  from b(2) have "?n + 1 \<le> 2 ^ Suc (ilog2 ?n)"
    by simp
  then have "(of_nat (?n + 1) :: rat) \<le> 2 ^ Suc (ilog2 ?n)"
    by (metis of_nat_le_iff of_nat_numeral of_nat_power)
  moreover have "\<bar>x\<bar> < of_nat (?n + 1)"
    using True by simp linarith
  ultimately have hi: "\<bar>x\<bar> < 2 ^ Suc (ilog2 ?n)"
    by linarith
  from True have e: "expo x = int (ilog2 ?n)"
    by (simp add: expo_def)
  show ?thesis
    unfolding e pow2_Suc pow2_nat using lo hi by simp
next
  case False
  define a where "a = \<bar>x\<bar>"
  define n where "n = nat \<lfloor>1 / a\<rfloor>"
  define j where "j = ilog2 n"
  from assms have a0: "0 < a"
    by (simp add: a_def)
  from False a0 have "1 \<le> 1 / a"
    by (simp add: le_divide_eq a_def)
  then have n: "0 < n"
    by (simp add: n_def)
  from ilog2_bounds [OF n] have b: "2 ^ j \<le> n" "n < 2 ^ Suc j"
    by (simp_all add: j_def)
  have "(of_nat n :: rat) \<le> 1 / a"
    using a0 by (simp add: n_def)
  moreover from b(1) have "(2 :: rat) ^ j \<le> of_nat n"
    by (metis of_nat_le_iff of_nat_numeral of_nat_power)
  ultimately have "2 ^ j \<le> 1 / a"
    by linarith
  with a0 have up: "a * 2 ^ j \<le> 1"
    by (simp add: le_divide_eq mult.commute)
  from b(2) have "n + 1 \<le> 2 ^ Suc j"
    by simp
  then have "(of_nat (n + 1) :: rat) \<le> 2 ^ Suc j"
    by (metis of_nat_le_iff of_nat_numeral of_nat_power)
  moreover have "1 / a < of_nat (n + 1)"
    using a0 unfolding n_def by simp linarith
  ultimately have "1 / a < 2 ^ Suc j"
    by linarith
  with a0 have dn: "1 < a * 2 ^ Suc j"
    by (simp add: divide_less_eq mult.commute)
  have ex: "expo x = (if a * pow2 (int j) = 1 then - int j else - int j - 1)"
    using False by (simp add: expo_def Let_def a_def n_def j_def)
  show ?thesis
  proof (cases "a * pow2 (int j) = 1")
    case True
    with ex have e: "expo x = - int j"
      by simp
    from True have "a = 1 / 2 ^ j"
      by (simp add: pow2_nat field_simps)
    then have "pow2 (- int j) = a"
      by (simp only: pow2_neg)
    then show ?thesis
      unfolding e pow2_Suc a_def [symmetric] using a0 by simp
  next
    case ne: False
    with ex have e: "expo x = - int (Suc j)"
      by simp
    from ne up have "a * 2 ^ j < 1"
      by (simp add: pow2_nat)
    then have hi: "a < 1 / 2 ^ j"
      by (simp add: less_divide_eq)
    from dn have lo: "1 / 2 ^ Suc j < a"
      by (simp add: divide_less_eq)
    have p: "pow2 (- int (Suc j)) = 1 / 2 ^ Suc j"
      by (simp only: pow2_neg)
    show ?thesis
      unfolding e pow2_Suc p a_def [symmetric] using lo hi by simp
  qed
qed

lemma ties_even_error: "\<bar>of_int (ties_even x) - x\<bar> \<le> 1 / 2"
proof -
  define r where "r = x - of_int \<lfloor>x\<rfloor>"
  have r: "0 \<le> r" "r < 1"
    unfolding r_def by linarith+
  have x: "x = of_int \<lfloor>x\<rfloor> + r"
    by (simp add: r_def)
  have t: "ties_even x =
      (if r < 1 / 2 then \<lfloor>x\<rfloor> else if 1 / 2 < r then \<lfloor>x\<rfloor> + 1
       else if even \<lfloor>x\<rfloor> then \<lfloor>x\<rfloor> else \<lfloor>x\<rfloor> + 1)"
    by (simp add: ties_even_def Let_def r_def)
  have "\<bar>of_int (ties_even x) - (of_int \<lfloor>x\<rfloor> + r)\<bar> \<le> 1 / 2"
    unfolding t using r by auto
  with x show ?thesis
    by simp
qed

lemma pow2_pos: "0 < pow2 k"
  by (simp add: pow2_def)

text \<open>
  The rounded value is a multiple of the spacing at the exponent of its argument, and
  lies within half a spacing of it.
\<close>

lemma binary64_error:
  "\<bar>binary64 x - x\<bar> \<le> pow2 (max (expo x) (- 1022) - 52) / 2"
proof (cases "x = 0")
  case True
  then show ?thesis
    using pow2_pos [of "max (expo 0) (- 1022) - 52"] by (simp add: binary64_def)
next
  case False
  let ?q = "pow2 (max (expo x) (- 1022) - 52)"
  have q: "0 < ?q"
    by (rule pow2_pos)
  have "\<bar>of_int (ties_even (x / ?q)) - x / ?q\<bar> \<le> 1 / 2"
    by (rule ties_even_error)
  then have "\<bar>of_int (ties_even (x / ?q)) - x / ?q\<bar> * ?q \<le> 1 / 2 * ?q"
    using q by (simp only: mult_le_cancel_right_pos)
  moreover have "\<bar>of_int (ties_even (x / ?q)) - x / ?q\<bar> * ?q =
      \<bar>of_int (ties_even (x / ?q)) * ?q - x\<bar>"
    using q by (simp add: abs_mult_pos left_diff_distrib)
  ultimately show ?thesis
    using False by (simp add: binary64_def Let_def)
qed

lemma ceiling_numeral_div:
  "\<lceil>numeral a / numeral b :: rat\<rceil> = - (- numeral a div numeral b)"
  using ceiling_divide_eq_div [of "numeral a" "numeral b", where ?'a = rat] by simp

lemma ilog2_le: "n < 2 ^ Suc k \<Longrightarrow> ilog2 n \<le> k"
proof (induction k arbitrary: n)
  case 0
  then show ?case by (subst ilog2.simps) simp
next
  case (Suc k)
  from Suc.prems have "n div 2 < 2 ^ Suc k"
    by simp
  then have "ilog2 (n div 2) \<le> k"
    by (rule Suc.IH)
  then show ?case
    by (subst ilog2.simps) simp
qed

lemma expo_le:
  assumes "\<bar>x\<bar> < 2 ^ 53"
  shows "expo x \<le> 52"
proof (cases "1 \<le> \<bar>x\<bar>")
  case True
  from assms have "\<lfloor>\<bar>x\<bar>\<rfloor> < 2 ^ 53"
    by (simp add: floor_less_iff)
  then have "nat \<lfloor>\<bar>x\<bar>\<rfloor> < 2 ^ Suc 52"
    by (simp add: nat_less_iff)
  then have "ilog2 (nat \<lfloor>\<bar>x\<bar>\<rfloor>) \<le> 52"
    by (rule ilog2_le)
  with True show ?thesis
    by (simp add: expo_def)
next
  case False
  then show ?thesis
    by (simp add: expo_def Let_def)
qed

lemma quantum:
  assumes "\<bar>x\<bar> < 2 ^ 53"
  obtains m :: nat where "pow2 (max (expo x) (- 1022) - 52) = 1 / 2 ^ m"
proof -
  let ?k = "max (expo x) (- 1022) - 52"
  from expo_le [OF assms] have "?k \<le> 0"
    by simp
  then have "pow2 ?k = 1 / 2 ^ nat (- ?k)"
    by (cases "?k = 0") (simp_all add: pow2_def)
  then show ?thesis ..
qed

lemma ties_even_le: "x \<le> of_int k \<Longrightarrow> ties_even x \<le> k"
  unfolding ties_even_def Let_def by (auto; linarith)

lemma ties_even_ge: "of_int k \<le> x \<Longrightarrow> k \<le> ties_even x"
  unfolding ties_even_def Let_def by (auto; linarith)

lemma binary64_le_int:
  assumes "\<bar>x\<bar> < 2 ^ 53" "x \<le> of_int k"
  shows "binary64 x \<le> of_int k"
proof (cases "x = 0")
  case True
  with assms(2) show ?thesis by (simp add: binary64_def)
next
  case False
  from assms(1) obtain m :: nat where q: "pow2 (max (expo x) (- 1022) - 52) = 1 / 2 ^ m"
    by (rule quantum)
  from assms(2) have "x * 2 ^ m \<le> of_int (k * 2 ^ m)"
    by simp
  then have "ties_even (x * 2 ^ m) \<le> k * 2 ^ m"
    by (rule ties_even_le)
  then have "(of_int (ties_even (x * 2 ^ m)) :: rat) \<le> of_int (k * 2 ^ m)"
    by (simp only: of_int_le_iff)
  then have "(of_int (ties_even (x * 2 ^ m)) :: rat) / 2 ^ m \<le> of_int k"
    by (simp add: divide_le_eq)
  with False q show ?thesis
    by (simp add: binary64_def Let_def)
qed

lemma binary64_ge_int:
  assumes "\<bar>x\<bar> < 2 ^ 53" "of_int k \<le> x"
  shows "of_int k \<le> binary64 x"
proof (cases "x = 0")
  case True
  with assms(2) show ?thesis by (simp add: binary64_def)
next
  case False
  from assms(1) obtain m :: nat where q: "pow2 (max (expo x) (- 1022) - 52) = 1 / 2 ^ m"
    by (rule quantum)
  from assms(2) have "of_int (k * 2 ^ m) \<le> x * 2 ^ m"
    by simp
  then have "k * 2 ^ m \<le> ties_even (x * 2 ^ m)"
    by (rule ties_even_ge)
  then have "(of_int (k * 2 ^ m) :: rat) \<le> of_int (ties_even (x * 2 ^ m))"
    by (simp only: of_int_le_iff)
  then have "of_int k \<le> (of_int (ties_even (x * 2 ^ m)) :: rat) / 2 ^ m"
    by (simp add: le_divide_eq)
  with False q show ?thesis
    by (simp add: binary64_def Let_def)
qed

lemma float_of_int_exact:
  assumes "\<bar>n\<bar> < 2 ^ 53"
  shows "float_of_int n = of_int n"
proof -
  from assms have "\<bar>of_int n :: rat\<bar> < of_int (2 ^ 53)"
    by (simp only: of_int_abs [symmetric] of_int_less_iff)
  then have a: "\<bar>of_int n :: rat\<bar> < 2 ^ 53"
    by simp
  from binary64_le_int [OF a, of n] binary64_ge_int [OF a, of n] show ?thesis
    by (simp add: float_of_int_def)
qed


section \<open>The percentile\<close>

lemma p95_bounds: "0 \<le> p95" "p95 \<le> 1"
  by (simp_all add: p95_def)

lemma py_index_in_range:
  "0 \<le> i \<Longrightarrow> i < int (length xs) \<Longrightarrow> py_index xs i = Inr (xs ! nat i)"
  by (simp add: py_index_def)

lemma rank_bounds:
  assumes "0 \<le> N" "N < 2 ^ 53"
  defines "r \<equiv> binary64 (of_int N * p95)"
  shows "0 \<le> r" "r \<le> of_int N" "0 \<le> \<lfloor>r\<rfloor>" "\<lceil>r\<rceil> \<le> N" "\<lfloor>r\<rfloor> \<le> N" "0 \<le> \<lceil>r\<rceil>"
proof -
  let ?x = "of_int N * p95 :: rat"
  from assms(1) have x0: "0 \<le> ?x"
    using p95_bounds by simp
  from assms(1) have xN: "?x \<le> of_int N"
    using p95_bounds by (simp add: mult_left_le)
  from assms(2) have "(of_int N :: rat) < of_int (2 ^ 53)"
    by (simp only: of_int_less_iff)
  with x0 xN have a: "\<bar>?x\<bar> < 2 ^ 53"
    by simp
  from binary64_ge_int [OF a, of 0] x0 show r0: "0 \<le> r"
    by (simp add: r_def)
  from binary64_le_int [OF a xN] show rN: "r \<le> of_int N"
    by (simp add: r_def)
  from r0 show f0: "0 \<le> \<lfloor>r\<rfloor>"
    by simp
  from rN show cN: "\<lceil>r\<rceil> \<le> N"
    by (simp add: ceiling_le_iff)
  from cN show "\<lfloor>r\<rfloor> \<le> N"
    using floor_le_ceiling [of r] by linarith
  from f0 show "0 \<le> \<lceil>r\<rceil>"
    using floor_le_ceiling [of r] by linarith
qed

lemma percentile_interpolates:
  assumes "values \<noteq> []" "length values \<le> 2 ^ 53"
  defines "r \<equiv> binary64 (of_int (int (length values) - 1) * p95)"
  shows "percentile values p95 = Inr (Some (interpolate (sort values) r))"
proof (cases "length values = 1")
  case True
  then obtain v where v: "values = [v]"
    by (cases "values") auto
  have "r = 0"
    by (simp add: r_def v binary64_def)
  then show ?thesis
    by (simp add: percentile_def interpolate_def v)
next
  case False
  let ?N = "int (length values) - 1"
  let ?s = "sort values"
  from assms(1) have N0: "0 \<le> ?N"
    by (cases "values") simp_all
  from assms(2) have "int (length values) \<le> 2 ^ 53"
    by (metis of_nat_le_iff of_nat_numeral of_nat_power)
  then have N: "?N < 2 ^ 53"
    by simp
  note b = rank_bounds [OF N0 N, folded r_def]
  from N0 N have "float_of_int ?N = of_int ?N"
    by (intro float_of_int_exact) simp
  then have rank: "fmul (float_of_int (int (length ?s) - 1)) p95 = r"
    by (simp add: fmul_def r_def)
  have lo: "py_index ?s \<lfloor>r\<rfloor> = Inr (?s ! nat \<lfloor>r\<rfloor>)"
    using b by (intro py_index_in_range) simp_all
  have hi: "py_index ?s \<lceil>r\<rceil> = Inr (?s ! nat \<lceil>r\<rceil>)"
    using b by (intro py_index_in_range) simp_all
  have tr: "py_int r = \<lfloor>r\<rfloor>"
    using b by (simp add: py_int_def)
  from b N have "\<bar>\<lfloor>r\<rfloor>\<bar> < 2 ^ 53"
    by simp
  then have fl: "float_of_int \<lfloor>r\<rfloor> = of_int \<lfloor>r\<rfloor>"
    by (rule float_of_int_exact)
  from assms(1) False show ?thesis
    unfolding percentile_def Let_def rank tr lo hi fl interpolate_def
    by simp
qed

lemma float_3: "float_of_int 3 = 3" "float_of_int 2 = 2"
  by (simp_all add: float_of_int_def binary64_eval)

lemma rank_4: "fmul 3 p95 = 1604407367250739 / 562949953421312"
  by (simp add: fmul_def p95_def binary64_eval)

lemma frac_4: "fsub (1604407367250739 / 562949953421312) 2 = 478507460408115 / 562949953421312"
  by (simp add: fsub_def binary64_eval)

lemma rest_4: "fsub 1 (478507460408115 / 562949953421312) = 84442493013197 / 562949953421312"
  by (simp add: fsub_def binary64_eval)

lemma low_4: "fmul 30 (84442493013197 / 562949953421312) = 1266637395197955 / 281474976710656"
  by (simp add: fmul_def binary64_eval)

lemma high_4: "fmul 40 (478507460408115 / 562949953421312) = 2392537302040575 / 70368744177664"
  by (simp add: fmul_def binary64_eval)

lemma sum_4: "fadd (1266637395197955 / 281474976710656) (2392537302040575 / 70368744177664) = 77 / 2"
  by (simp add: fadd_def binary64_eval)

lemma percentile_example: "percentile [10, 20, 30, 40] p95 = Inr (Some (77 / 2))"
  by (simp add: percentile_def Let_def float_3 rank_4 frac_4 rest_4 low_4 high_4 sum_4
        floor_numeral_div ceiling_numeral_div py_index_def)

lemma p95_nearest: "binary64 (95 / 100) = p95"
  by (simp add: p95_def binary64_eval)

text \<open>
  C7: for a non-empty list (of at most \<open>2 ^ 53\<close> values, so that the count is a float),
  \<^verbatim>\<open>_percentile(values, 0.95)\<close> returns the linear interpolation at the rank
  \<open>(count - 1) \<times> 0.95\<close>, computed in floats, between the two order statistics that bound
  the rank, both of them positions of the list. On \<open>[10, 20, 30, 40]\<close> the rank is
  \<open>2.8499999999999996\<close> and the result is \<open>38.5\<close> exactly.
\<close>

theorem percentile_95:
  "(values \<noteq> [] \<and> length values \<le> 2 ^ 53 \<longrightarrow>
      percentile values p95 =
        Inr (Some (interpolate (sort values) (binary64 (of_int (int (length values) - 1) * p95)))) \<and>
      0 \<le> \<lfloor>binary64 (of_int (int (length values) - 1) * p95)\<rfloor> \<and>
      \<lceil>binary64 (of_int (int (length values) - 1) * p95)\<rceil> \<le> int (length values) - 1) \<and>
   binary64 (95 / 100) = p95 \<and>
   binary64 (3 * p95) = 2 + 478507460408115 / 562949953421312 \<and>
   percentile [10, 20, 30, 40] p95 = Inr (Some (77 / 2))"
proof (intro conjI impI)
  assume a: "values \<noteq> [] \<and> length values \<le> 2 ^ 53"
  then show "percentile values p95 =
        Inr (Some (interpolate (sort values) (binary64 (of_int (int (length values) - 1) * p95))))"
    by (simp add: percentile_interpolates)
  from a have N0: "0 \<le> int (length values) - 1"
    by (cases "values") simp_all
  from a have "int (length values) \<le> 2 ^ 53"
    by (metis of_nat_le_iff of_nat_numeral of_nat_power)
  then have N: "int (length values) - 1 < 2 ^ 53"
    by simp
  from rank_bounds [OF N0 N]
  show "0 \<le> \<lfloor>binary64 (of_int (int (length values) - 1) * p95)\<rfloor>"
    "\<lceil>binary64 (of_int (int (length values) - 1) * p95)\<rceil> \<le> int (length values) - 1"
    by simp_all
next
  show "binary64 (95 / 100) = p95"
    by (rule p95_nearest)
  show "binary64 (3 * p95) = 2 + 478507460408115 / 562949953421312"
    using rank_4 by (simp add: fmul_def)
  show "percentile [10, 20, 30, 40] p95 = Inr (Some (77 / 2))"
    by (rule percentile_example)
qed

theorem percentile_95_witness:
  "percentile [40, 10, 30, 20] p95 =
     Inr (Some (interpolate [10, 20, 30, 40] (2 + 478507460408115 / 562949953421312))) \<and>
   interpolate [10, 20, 30, 40] (2 + 478507460408115 / 562949953421312) = 77 / 2"
proof -
  have r: "binary64 (3 * p95) = 2 + 478507460408115 / 562949953421312"
    using rank_4 by (simp add: fmul_def)
  have "interpolate [10, 20, 30, 40] (2 + 478507460408115 / 562949953421312) = 77 / 2"
    by (simp add: interpolate_def floor_numeral_div ceiling_numeral_div frac_4 rest_4 low_4 high_4
          sum_4)
  with percentile_95 [of "[40, 10, 30, 20]"] r show ?thesis
    by simp
qed

section \<open>The summary rows\<close>

lemma latency_example: "latency_ms (Some 1050000000) 1000000000 = Some 50"
  by (simp add: latency_ms_def fdiv_def float_of_int_def binary64_eval)

lemma summary_row_present:
  assumes "per_decoder trial dec = Some st" "first_detect_ns st = Some f" "f \<noteq> 0"
  shows "success (summary_row tid trial dec) \<and>
         first_detect_latency_ms (summary_row tid trial dec) =
           Some (fdiv (float_of_int (f - t0_ns trial)) 1000000)"
  using assms by (simp add: summary_row_def truthy_def latency_ms_def Let_def)

lemma summary_row_absent:
  assumes "per_decoder trial dec = None \<or>
    (\<exists>st. per_decoder trial dec = Some st \<and> first_detect_ns st = None)"
  shows "\<not> success (summary_row tid trial dec) \<and>
         first_detect_latency_ms (summary_row tid trial dec) = None"
  using assms by (auto simp add: summary_row_def truthy_def latency_ms_def Let_def new_state_def)

lemma map_insort_key: "map f (insort_key f x xs) = insort (f x) (map f xs)"
  by (induction xs) simp_all

lemma map_sort_key: "map f (sort_key f xs) = sort (map f xs)"
  by (induction xs) (simp_all add: map_insort_key)

lemma summary_rows_order:
  "map row_trial_id (trials_summary_rows c) =
     concat (map (\<lambda>tid. [tid, tid, tid]) (sort (map fst (trials_map c))))"
proof -
  have "map row_trial_id (concat (map (\<lambda>(tid, trial). map (summary_row tid trial) DECODERS) xs)) =
      concat (map (\<lambda>tid. [tid, tid, tid]) (map fst xs))" for xs :: "(int \<times> TrialRecord) list"
    by (induction xs) (auto simp: DECODERS_def summary_row_def Let_def)
  from this [of "sort_key fst (trials_map c)"] show ?thesis
    by (simp add: trials_summary_rows_def map_sort_key)
qed

lemma at_zero_trials:
  "trials_map at_zero =
     [(1, \<lparr>trial_id = 1, t0_ns = 0, timeout_ns = 3000000000,
           per_decoder = [''VISION'' \<mapsto>
             \<lparr>first_detect_ns = Some 0, confirm_detect_ns = None, history = [(''QR'', 0)]\<rparr>]\<rparr>)]"
  by (simp add: at_zero_def start_trial_def new_controller_def default_timeout Let_def
        on_detection_def update_state_def slide_def matching_def default_window new_state_def
        default_required)

text \<open>
  C8 at a detection stamped \<open>0\<close>: the first detection of the decoder is recorded, and the
  summary row reports no success and no latency for it, since \<^verbatim>\<open>trials_summary_rows\<close>
  tests the timestamp by its truth value.
\<close>

theorem summary_misses_detection_at_zero:
  "first_detect_ns (decoder_state at_zero 1 ''VISION'') = Some 0 \<and>
   trials_summary_rows at_zero =
     [\<lparr>row_trial_id = 1, row_decoder = ''AVFOUNDATION'', success = False,
       first_detect_latency_ms = None, confirm_detect_latency_ms = None\<rparr>,
      \<lparr>row_trial_id = 1, row_decoder = ''VISION'', success = False,
       first_detect_latency_ms = None, confirm_detect_latency_ms = None\<rparr>,
      \<lparr>row_trial_id = 1, row_decoder = ''ZXING'', success = False,
       first_detect_latency_ms = None, confirm_detect_latency_ms = None\<rparr>]"
  by (simp add: decoder_state_def trials_summary_rows_def at_zero_trials DECODERS_def
        summary_row_def truthy_def latency_ms_def new_state_def Let_def)

end
